theory Spec2Isabelle
  imports Main
begin

section \<open>The utterance source of the Kaldi reader (utterancesource.h)\<close>

text \<open>
  The development embeds \<^verbatim>\<open>minibatchutterancesource\<close>: the chunk data with its
  paging cache, the constructor's corpus scan and chunk building, the per-sweep
  randomization (\<^verbatim>\<open>lazyrandomization\<close>) and the two entry points
  \<^verbatim>\<open>getbatch\<close> and \<^verbatim>\<open>firstvalidglobalts\<close>.

  Conventions. A \<^verbatim>\<open>size_t\<close> is a \<open>nat\<close>. Times on the global timeline (the
  \<^verbatim>\<open>globalts\<close> and \<^verbatim>\<open>globalte\<close> of chunks and utterances, the start of a sweep) are
  computed as the source computes them, modulo \<open>SIZE_MAX + 1\<close>; the timeline of the
  last sweeps wraps around. Counts of utterances, chunks and frames of a corpus are not
  reduced: a corpus whose counts reach \<open>SIZE_MAX\<close> is outside this model. A C++ exception is a value of \<open>exn\<close>; a
  function that can throw while it mutates returns the mutated state next to the
  exception. Undefined behaviour of the source (a vector read out of range, a division
  by zero, \<^verbatim>\<open>back()\<close> of an empty vector) is the exception \<open>undefined_behaviour\<close>,
  so that no theorem rests on an unspecified HOL value. Record fields keep the source's
  names; where two structs share a field name the second one carries a prefix.
\<close>

datatype exn =
    logic_error string
  | runtime_error string
  | bad_alloc
  | undefined_behaviour string

subsection \<open>Chunk data and its cache\<close>

text \<open>
  Modelled from the spec: \<^verbatim>\<open>msra::dbn::matrix\<close> (ssematrix.h is not under src/), the
  "lazily-populated frame matrix" of a chunk. Only its dimensions are kept; the matrix
  is empty when it has no element.
\<close>

record matrix =
  numrows :: nat
  numcols :: nat

definition matrix_empty :: "matrix \<Rightarrow> bool" where
  "matrix_empty m = (numrows m * numcols m = 0)"

definition matrix_resize :: "nat \<Rightarrow> nat \<Rightarrow> matrix" where
  "matrix_resize n m = \<lparr>numrows = n, numcols = m\<rparr>"

text \<open>\<^verbatim>\<open>std::vector::resize\<close>: keeps the prefix, pads with the default value.\<close>

definition vector_resize :: "nat \<Rightarrow> 'a \<Rightarrow> 'a list \<Rightarrow> 'a list" where
  "vector_resize n d xs = take n xs @ replicate (n - length xs) d"

text \<open>
  \<^verbatim>\<open>struct utterancedesc\<close>. The parsed path is kept as the two things the class reads
  from it: the lattice key (the logical path without its extension) and the number of
  frames.
\<close>

record utterancedesc =
  key :: string
  uttnumframes :: nat
  classidsbegin :: nat

text \<open>
  \<^verbatim>\<open>struct utterancechunkdata\<close>. A lattice pointer is the key of the lattice pair it
  points to, \<open>None\<close> for a null pointer.
\<close>

record utterancechunkdata =
  utteranceset :: "utterancedesc list"
  firstframes :: "nat list"
  frames :: matrix
  totalframes :: nat
  lattices :: "string option list"

definition numutterances :: "utterancechunkdata \<Rightarrow> nat" where
  "numutterances c = length (utteranceset c)"

definition isinram :: "utterancechunkdata \<Rightarrow> bool" where
  "isinram c = (\<not> matrix_empty (frames c))"

definition virginchunk :: utterancechunkdata where
  "virginchunk = \<lparr>utteranceset = [], firstframes = [], frames = matrix_resize 0 0,
                   totalframes = 0, lattices = []\<rparr>"

definition push_back :: "utterancedesc \<Rightarrow> utterancechunkdata \<Rightarrow> exn + utterancechunkdata" where
  "push_back utt c =
     (if isinram c
      then Inl (logic_error ''utterancechunkdata: frames already paged into RAM--too late to add data'')
      else Inr (c\<lparr>firstframes := firstframes c @ [totalframes c],
                   totalframes := totalframes c + uttnumframes utt,
                   utteranceset := utteranceset c @ [utt]\<rparr>))"

definition releasedata :: "utterancechunkdata \<Rightarrow> exn + utterancechunkdata" where
  "releasedata c =
     (if numutterances c = 0
      then Inl (logic_error ''releasedata: cannot page out virgin block'')
      else if \<not> isinram c
      then Inl (logic_error ''releasedata: called when data is not memory'')
      else Inr (c\<lparr>frames := matrix_resize 0 0, lattices := []\<rparr>))"

text \<open>
  What the outside world does during one call of \<^verbatim>\<open>requiredata\<close>: the feature
  reader's \<^verbatim>\<open>getinfo\<close> yields the feature dimension or throws, the allocation of the
  frame buffer may throw, and reading the features or fetching the lattice of the
  utterance with a given index may throw.
\<close>

record loadenv =
  getinfo :: "exn + nat"
  resize_fault :: "exn option"
  read_fault :: "nat \<Rightarrow> exn option"
  getlattices_fault :: "nat \<Rightarrow> exn option"

text \<open>
  The \<^verbatim>\<open>foreach_index (i, utteranceset)\<close> loop of \<^verbatim>\<open>requiredata\<close>;
  \<^verbatim>\<open>getutteranceframes\<close> throws when the buffer is empty. The flag is
  \<^verbatim>\<open>latticesource.empty()\<close>.
\<close>

fun readutterances :: "loadenv \<Rightarrow> bool \<Rightarrow> nat list \<Rightarrow> utterancechunkdata
    \<Rightarrow> exn option \<times> utterancechunkdata" where
  "readutterances env latempty [] c = (None, c)"
| "readutterances env latempty (i # rest) c =
     (if \<not> isinram c
      then (Some (logic_error ''getutteranceframes: called when data have not been paged in''), c)
      else case read_fault env i of
             Some e \<Rightarrow> (Some e, c)
           | None \<Rightarrow>
               if latempty then readutterances env latempty rest c
               else (case getlattices_fault env i of
                       Some e \<Rightarrow> (Some e, c)
                     | None \<Rightarrow> readutterances env latempty rest
                         (c\<lparr>lattices := (lattices c)[i := Some (key (utteranceset c ! i))]\<rparr>)))"

text \<open>The body of the \<^verbatim>\<open>try\<close> block; the feature dimension is passed by reference.\<close>

definition requiredata_try :: "loadenv \<Rightarrow> bool \<Rightarrow> nat \<Rightarrow> utterancechunkdata
    \<Rightarrow> exn option \<times> utterancechunkdata \<times> nat" where
  "requiredata_try env latempty featdim c =
     (case (if featdim = 0 then getinfo env else Inr featdim) of
        Inl e \<Rightarrow> (Some e, c, featdim)
      | Inr fd \<Rightarrow>
          (case resize_fault env of
             Some e \<Rightarrow> (Some e, c, fd)
           | None \<Rightarrow>
               let c1 = c\<lparr>frames := matrix_resize fd (totalframes c)\<rparr>;
                   c2 = (if latempty then c1
                         else c1\<lparr>lattices := vector_resize (length (utteranceset c1)) None (lattices c1)\<rparr>);
                   (r, c3) = readutterances env latempty [0..<length (utteranceset c2)] c2
               in (r, c3, fd)))"

text \<open>
  \<^verbatim>\<open>requiredata\<close>: the two precondition checks, the \<^verbatim>\<open>try\<close> block, and the handler
  that calls \<^verbatim>\<open>releasedata\<close> and rethrows. An exception of \<^verbatim>\<open>releasedata\<close> inside
  the handler replaces the one being handled.
\<close>

definition requiredata :: "loadenv \<Rightarrow> bool \<Rightarrow> nat \<Rightarrow> utterancechunkdata
    \<Rightarrow> exn option \<times> utterancechunkdata \<times> nat" where
  "requiredata env latempty featdim c =
     (if numutterances c = 0
      then (Some (logic_error ''requiredata: cannot page in virgin block''), c, featdim)
      else if isinram c
      then (Some (logic_error ''requiredata: called when data is already in memory''), c, featdim)
      else case requiredata_try env latempty featdim c of
             (None, c', fd) \<Rightarrow> (None, c', fd)
           | (Some e, c', fd) \<Rightarrow>
               (case releasedata c' of
                  Inl e' \<Rightarrow> (Some e', c', fd)
                | Inr c'' \<Rightarrow> (Some e, c'', fd)))"

subsection \<open>Build and platform\<close>

text \<open>
  The parts fixed outside src/: whether \<^verbatim>\<open>_WIN64\<close> is defined (it selects the
  \<^verbatim>\<open>frameref\<close> layout), the C library's \<^verbatim>\<open>RAND_MAX\<close>, the width of
  \<^verbatim>\<open>CLASSIDTYPE\<close>, and the pseudo-random generator: \<open>rawrand P seed n\<close> is the raw
  number behind the \<open>n\<close>-th call of \<^verbatim>\<open>msra::dbn::rand\<close> after \<^verbatim>\<open>srand (seed)\<close>.
\<close>

record platform =
  WIN64 :: bool
  RAND_MAX :: nat
  CLASSIDTYPE_bits :: nat
  rawrand :: "nat \<Rightarrow> nat \<Rightarrow> nat"

definition SIZE_MAX :: "platform \<Rightarrow> nat" where
  "SIZE_MAX P = (if WIN64 P then 2 ^ 64 - 1 else 2 ^ 32 - 1)"

text \<open>
  Arithmetic of \<^verbatim>\<open>size_t\<close>: the value that a sum or product with mathematical value
  \<open>x\<close> has, and the difference of two values.
\<close>

definition size_t :: "platform \<Rightarrow> nat \<Rightarrow> nat" where
  "size_t P x = x mod (SIZE_MAX P + 1)"

definition size_minus :: "platform \<Rightarrow> nat \<Rightarrow> nat \<Rightarrow> nat" where
  "size_minus P a b = nat ((int a - int b) mod int (SIZE_MAX P + 1))"

definition maxutterancesperchunk :: "platform \<Rightarrow> nat" where
  "maxutterancesperchunk P = (if WIN64 P then 65535 else 255)"

definition maxframesperutterance :: "platform \<Rightarrow> nat" where
  "maxframesperutterance P = (if WIN64 P then 65535 else 2047)"

text \<open>Widths of the three \<^verbatim>\<open>frameref\<close> fields.\<close>

definition chunkindex_bits :: "platform \<Rightarrow> nat" where
  "chunkindex_bits P = (if WIN64 P then 16 else 13)"

definition utteranceindex_bits :: "platform \<Rightarrow> nat" where
  "utteranceindex_bits P = (if WIN64 P then 16 else 8)"

definition frameindex_bits :: "platform \<Rightarrow> nat" where
  "frameindex_bits P = (if WIN64 P then 16 else 11)"

text \<open>\<^verbatim>\<open>(CLASSIDTYPE) -1\<close>, the boundary marker behind every utterance's labels.\<close>

definition boundarymarker :: "platform \<Rightarrow> nat" where
  "boundarymarker P = 2 ^ CLASSIDTYPE_bits P - 1"

text \<open>\<^verbatim>\<open>(unsigned int) x\<close>, the argument conversion of \<^verbatim>\<open>srand\<close>.\<close>

definition unsigned_int :: "nat \<Rightarrow> nat" where
  "unsigned_int x = x mod 2 ^ 32"

text \<open>
  Modelled from the spec: \<^verbatim>\<open>msra::dbn::rand (begin, end)\<close> (minibatchsourcehelpers.h is
  not under src/) draws "uniformly from that range" \<open>[begin, end)\<close>: the raw number is
  reduced modulo the width of the range. An empty range has no value to draw (the
  reduction would divide by zero).
\<close>

definition rand :: "nat \<Rightarrow> nat \<Rightarrow> nat \<Rightarrow> exn + nat" where
  "rand raw begin end =
     (if end \<le> begin then Inl (undefined_behaviour ''rand: empty range'')
      else Inr (begin + raw mod (end - begin)))"

text \<open>A counted loop whose body may throw: \<^verbatim>\<open>for\<close> over the given indices.\<close>

fun foreach :: "nat list \<Rightarrow> (nat \<Rightarrow> 's \<Rightarrow> exn + 's) \<Rightarrow> 's \<Rightarrow> exn + 's" where
  "foreach [] body s = Inr s"
| "foreach (i # rest) body s =
     (case body i s of Inl e \<Rightarrow> Inl e | Inr s' \<Rightarrow> foreach rest body s')"

subsection \<open>The randomized sequence\<close>

text \<open>
  \<^verbatim>\<open>struct chunk\<close>: a chunk in processing order. The iterator into
  \<^verbatim>\<open>allchunks\<close> is the index it points at. \<^verbatim>\<open>globalts\<close> of this struct is
  \<open>chunk_globalts\<close>.
\<close>

record chunk =
  uttchunkdata :: nat
  utteranceposbegin :: nat
  chunk_globalts :: nat
  windowbegin :: nat
  windowend :: nat

definition chunk_numutterances :: "utterancechunkdata list \<Rightarrow> chunk \<Rightarrow> nat" where
  "chunk_numutterances A ch = numutterances (A ! uttchunkdata ch)"

definition chunk_numframes :: "utterancechunkdata list \<Rightarrow> chunk \<Rightarrow> nat" where
  "chunk_numframes A ch = totalframes (A ! uttchunkdata ch)"

definition utteranceposend :: "utterancechunkdata list \<Rightarrow> chunk \<Rightarrow> nat" where
  "utteranceposend A ch = utteranceposbegin ch + chunk_numutterances A ch"

definition chunk_globalte :: "platform \<Rightarrow> utterancechunkdata list \<Rightarrow> chunk \<Rightarrow> nat" where
  "chunk_globalte P A ch = size_t P (chunk_globalts ch + chunk_numframes A ch)"

text \<open>\<^verbatim>\<open>struct utteranceref\<close>.\<close>

record utteranceref =
  chunkindex :: nat
  utteranceindex :: nat
  numframes :: nat
  globalts :: nat

definition globalte :: "platform \<Rightarrow> utteranceref \<Rightarrow> nat" where
  "globalte P u = size_t P (globalts u + numframes u)"

definition new_utteranceref :: "platform \<Rightarrow> nat \<Rightarrow> nat \<Rightarrow> utteranceref" where
  "new_utteranceref P ci ui =
     \<lparr>chunkindex = ci, utteranceindex = ui, numframes = 0, globalts = SIZE_MAX P\<rparr>"

text \<open>\<^verbatim>\<open>utteranceref::swap\<close> exchanges the chunk and utterance index only.\<close>

definition swap_utterancerefs :: "nat \<Rightarrow> nat \<Rightarrow> utteranceref list \<Rightarrow> utteranceref list" where
  "swap_utterancerefs i j refs =
     refs[i := (refs ! i)\<lparr>chunkindex := chunkindex (refs ! j), utteranceindex := utteranceindex (refs ! j)\<rparr>,
          j := (refs ! j)\<lparr>chunkindex := chunkindex (refs ! i), utteranceindex := utteranceindex (refs ! i)\<rparr>]"

text \<open>
  \<^verbatim>\<open>struct positionchunkwindow\<close> holds the defining chunk of a position (an iterator
  into \<^verbatim>\<open>randomizedchunks\<close>, here its index).
\<close>

definition isvalidforthisposition :: "chunk list \<Rightarrow> nat \<Rightarrow> utteranceref \<Rightarrow> bool" where
  "isvalidforthisposition cs definingchunk utt =
     (chunkindex utt \<ge> windowbegin (cs ! definingchunk) \<and>
      chunkindex utt < windowend (cs ! definingchunk))"

text \<open>\<^verbatim>\<open>struct frameref\<close>; the fields of this struct carry the prefix \<open>fr_\<close>.\<close>

record frameref =
  fr_chunkindex :: nat
  fr_utteranceindex :: nat
  fr_frameindex :: nat

text \<open>\<^verbatim>\<open>::swap (v[i], v[j])\<close>.\<close>

definition swap_at :: "nat \<Rightarrow> nat \<Rightarrow> 'a list \<Rightarrow> 'a list" where
  "swap_at i j v = v[i := v ! j, j := v ! i]"

subsection \<open>The source object\<close>

text \<open>
  The data members of \<^verbatim>\<open>minibatchutterancesource\<close> that the modelled functions
  read or write. \<^verbatim>\<open>_totalframes\<close> and \<^verbatim>\<open>numutterances\<close> of the class are
  \<open>corpus_totalframes\<close> and \<open>corpus_numutterances\<close>; \<open>latticesource_empty\<close> is
  \<^verbatim>\<open>lattices.empty()\<close>; a word transcript is the list of its word ids.
  \<open>ioclock\<close> is not in the source: it counts the calls of \<^verbatim>\<open>requiredata\<close>, so that
  the outside world can answer each call differently.
\<close>

record source =
  vdim :: nat
  featdim :: nat
  framemode :: bool
  counts :: "nat list"
  latticesource_empty :: bool
  allwordtranscripts :: "(string \<times> nat list) list"
  allchunks :: "utterancechunkdata list"
  classids :: "nat list"
  corpus_numutterances :: nat
  corpus_totalframes :: nat
  randomizationrange :: nat
  currentsweep :: nat
  randomizedchunks :: "chunk list"
  chunksinram :: nat
  randomizedutterancerefs :: "utteranceref list"
  randomizedutteranceposmap :: "nat \<rightharpoonup> nat"
  positionchunkwindows :: "nat list"
  randomizedframerefs :: "frameref list"
  ioclock :: nat

definition issupervised :: "source \<Rightarrow> bool" where
  "issupervised st = (classids st \<noteq> [])"

subsection \<open>Paging randomized chunks\<close>

text \<open>\<^verbatim>\<open>chunksinram--\<close> on a \<^verbatim>\<open>size_t\<close>.\<close>

definition decrement :: "platform \<Rightarrow> nat \<Rightarrow> nat" where
  "decrement P n = (if n = 0 then SIZE_MAX P else n - 1)"

definition releaserandomizedchunk :: "platform \<Rightarrow> nat \<Rightarrow> source \<Rightarrow> exn + source" where
  "releaserandomizedchunk P k st =
     (if k \<ge> length (randomizedchunks st)
      then Inl (undefined_behaviour ''randomizedchunks[k]'')
      else let ci = uttchunkdata (randomizedchunks st ! k);
               chunkdata = allchunks st ! ci
           in if \<not> isinram chunkdata then Inr st
              else case releasedata chunkdata of
                     Inl e \<Rightarrow> Inl e
                   | Inr c' \<Rightarrow> Inr (st\<lparr>allchunks := (allchunks st)[ci := c'],
                                       chunksinram := decrement P (chunksinram st)\<rparr>))"

text \<open>
  Modelled from the spec: \<^verbatim>\<open>msra::util::attempt (retries, body)\<close> (basetypes.h is not
  under src/): the body is run "with up to 5 retry attempts on transient I/O failure
  before propagating the error"; \<open>attempt n\<close> runs the body at most \<open>n\<close> times (at
  least once), stops at the first run that does not throw and propagates the exception
  of the last run.
\<close>

fun attempt :: "nat \<Rightarrow> ('s \<Rightarrow> exn option \<times> 's) \<Rightarrow> 's \<Rightarrow> exn option \<times> 's" where
  "attempt 0 body s = body s"
| "attempt (Suc n) body s =
     (case body s of
        (None, s') \<Rightarrow> (None, s')
      | (Some e, s') \<Rightarrow> if n = 0 then (Some e, s') else attempt n body s')"

text \<open>The state after the first \<open>m\<close> runs of a body, whatever their outcome.\<close>

primrec runs :: "nat \<Rightarrow> ('s \<Rightarrow> exn option \<times> 's) \<Rightarrow> 's \<Rightarrow> 's" where
  "runs 0 body s = s"
| "runs (Suc m) body s = runs m body (snd (body s))"

text \<open>
  The lambda passed to \<^verbatim>\<open>attempt\<close> in \<^verbatim>\<open>requirerandomizedchunk\<close>: one call of
  \<^verbatim>\<open>requiredata\<close> on the underlying chunk, answered by the world as it is at this
  tick of the clock.
\<close>

definition requiredata_call :: "(nat \<Rightarrow> loadenv) \<Rightarrow> nat \<Rightarrow> source \<Rightarrow> exn option \<times> source" where
  "requiredata_call io ci st =
     (case requiredata (io (ioclock st)) (latticesource_empty st) (featdim st) (allchunks st ! ci) of
        (r, c', fd) \<Rightarrow>
          (r, st\<lparr>allchunks := (allchunks st)[ci := c'], featdim := fd, ioclock := Suc (ioclock st)\<rparr>))"

definition requirerandomizedchunk :: "(nat \<Rightarrow> loadenv) \<Rightarrow> nat \<Rightarrow> nat \<Rightarrow> nat \<Rightarrow> source
    \<Rightarrow> (exn + bool) \<times> source" where
  "requirerandomizedchunk io k wbegin wend st =
     (if k < wbegin \<or> k \<ge> wend
      then (Inl (logic_error ''requirerandomizedchunk: requested utterance outside in-memory chunk range''), st)
      else if k \<ge> length (randomizedchunks st)
      then (Inl (undefined_behaviour ''randomizedchunks[chunkindex]''), st)
      else let ci = uttchunkdata (randomizedchunks st ! k)
           in if isinram (allchunks st ! ci) then (Inr False, st)
              else case attempt 5 (requiredata_call io ci) st of
                     (Some e, st') \<Rightarrow> (Inl e, st')
                   | (None, st') \<Rightarrow> (Inr True, st'\<lparr>chunksinram := Suc (chunksinram st')\<rparr>))"

subsection \<open>Randomizing the chunks and their windows\<close>

text \<open>
  \<^verbatim>\<open>randomshuffle\<close>: after \<^verbatim>\<open>srand ((unsigned int) randomseed)\<close>, iteration \<open>i\<close> makes
  the \<open>i\<close>-th draw.
\<close>

definition randomshuffle :: "platform \<Rightarrow> 'a list \<Rightarrow> nat \<Rightarrow> exn + 'a list" where
  "randomshuffle P v randomseed =
     (if length v > RAND_MAX P * RAND_MAX P
      then Inl (runtime_error ''randomshuffle: too large set: need to change to different random generator!'')
      else foreach [0..<length v]
             (\<lambda>i v. case rand (rawrand P (unsigned_int randomseed) i) 0 (length v) of
                      Inl e \<Rightarrow> Inl e
                    | Inr irand \<Rightarrow> Inr (if irand = i then v else swap_at i irand v))
             v)"

text \<open>
  Placing the shuffled chunks on the timeline. The constructor of \<^verbatim>\<open>chunk\<close> leaves
  the two window fields unset; they are 0 here until the window loop assigns them,
  which happens before they are read.
\<close>

definition placechunk :: "platform \<Rightarrow> utterancechunkdata list \<Rightarrow> nat \<Rightarrow> nat \<Rightarrow> chunk list
    \<Rightarrow> chunk list" where
  "placechunk P A sweepts r cs =
     cs @ [\<lparr>uttchunkdata = r,
             utteranceposbegin = (if cs = [] then 0 else utteranceposend A (last cs)),
             chunk_globalts = (if cs = [] then sweepts else chunk_globalte P A (last cs)),
             windowbegin = 0, windowend = 0\<rparr>]"

definition placechunks :: "platform \<Rightarrow> utterancechunkdata list \<Rightarrow> nat \<Rightarrow> nat list \<Rightarrow> chunk list" where
  "placechunks P A sweepts refs = fold (placechunk P A sweepts) refs []"

text \<open>
  The two \<^verbatim>\<open>while\<close> loops that slide the window of chunk \<open>k\<close>; \<open>half\<close> is
  \<^verbatim>\<open>randomizationrange/2\<close>. The first loop reads \<^verbatim>\<open>randomizedchunks[chunk.windowbegin]\<close>
  without a bound of its own.
\<close>

function windowbegin_loop :: "platform \<Rightarrow> chunk list \<Rightarrow> nat \<Rightarrow> nat \<Rightarrow> nat \<Rightarrow> exn + nat" where
  "windowbegin_loop P cs half k wb =
     (if wb \<ge> length cs then Inl (undefined_behaviour ''randomizedchunks[chunk.windowbegin]'')
      else if size_minus P (chunk_globalts (cs ! k)) (chunk_globalts (cs ! wb)) > half
      then windowbegin_loop P cs half k (Suc wb)
      else Inr wb)"
  by pat_completeness auto
termination
  by (relation "measure (\<lambda>(P, cs, half, k, wb). length cs - wb)") auto

declare windowbegin_loop.simps [simp del]

function windowend_loop :: "platform \<Rightarrow> utterancechunkdata list \<Rightarrow> chunk list \<Rightarrow> nat \<Rightarrow> nat \<Rightarrow> nat
    \<Rightarrow> nat" where
  "windowend_loop P A cs half k we =
     (if we < length cs \<and> size_minus P (chunk_globalte P A (cs ! we)) (chunk_globalts (cs ! k)) < half
      then windowend_loop P A cs half k (Suc we)
      else we)"
  by pat_completeness auto
termination
  by (relation "measure (\<lambda>(P, A, cs, half, k, we). length cs - we)") auto

declare windowend_loop.simps [simp del]

definition setwindow :: "platform \<Rightarrow> utterancechunkdata list \<Rightarrow> nat \<Rightarrow> nat \<Rightarrow> chunk list
    \<Rightarrow> exn + chunk list" where
  "setwindow P A half k cs =
     (let wb0 = (if k = 0 then 0 else windowbegin (cs ! (k - 1)));
          we0 = (if k = 0 then 1 else windowend (cs ! (k - 1)))
      in case windowbegin_loop P cs half k wb0 of
           Inl e \<Rightarrow> Inl e
         | Inr wb \<Rightarrow>
             Inr (cs[k := (cs ! k)\<lparr>windowbegin := wb,
                                   windowend := windowend_loop P A cs half k we0\<rparr>]))"

definition computewindows :: "platform \<Rightarrow> utterancechunkdata list \<Rightarrow> nat \<Rightarrow> chunk list
    \<Rightarrow> exn + chunk list" where
  "computewindows P A rrange cs = foreach [0..<length cs] (setwindow P A (rrange div 2)) cs"

subsection \<open>Randomizing utterance positions\<close>

definition initpositionchunkwindows :: "utterancechunkdata list \<Rightarrow> chunk list \<Rightarrow> nat list" where
  "initpositionchunkwindows A cs =
     concat (map (\<lambda>k. replicate (utteranceposend A (cs ! k) - utteranceposbegin (cs ! k)) k)
                 [0..<length cs])"

definition initutterancerefs :: "platform \<Rightarrow> utterancechunkdata list \<Rightarrow> chunk list \<Rightarrow> utteranceref list" where
  "initutterancerefs P A cs =
     concat (map (\<lambda>k. map (new_utteranceref P k) [0..<chunk_numutterances A (cs ! k)])
                 [0..<length cs])"

text \<open>
  The range of positions \<open>[posbegin, posend)\<close> spanned by the window of the defining
  chunk \<open>d\<close>; \<^verbatim>\<open>randomizedchunks[windowend-1]\<close> is read without a check.
\<close>

definition positionrange :: "utterancechunkdata list \<Rightarrow> chunk list \<Rightarrow> nat \<Rightarrow> exn + nat \<times> nat" where
  "positionrange A cs d =
     (let wb = windowbegin (cs ! d); we = windowend (cs ! d)
      in if wb \<ge> length cs then Inl (undefined_behaviour ''randomizedchunks[windowbegin]'')
         else if we = 0 \<or> we - 1 \<ge> length cs then Inl (undefined_behaviour ''randomizedchunks[windowend-1]'')
         else Inr (utteranceposbegin (cs ! wb), utteranceposend A (cs ! (we - 1))))"

text \<open>
  The retry loop \<^verbatim>\<open>for(;;)\<close> for position \<open>i\<close>: it draws until \<open>j = i\<close> or the swap is
  admissible in both directions. \<open>n\<close> counts the draws made since \<^verbatim>\<open>srand\<close>; the loop
  has no bound, so the function is partial: \<open>None\<close> is a loop that never ends.
\<close>

partial_function (option) pickutterance ::
  "(nat \<Rightarrow> nat) \<Rightarrow> chunk list \<Rightarrow> nat list \<Rightarrow> nat \<Rightarrow> nat \<Rightarrow> nat \<Rightarrow> utteranceref list \<Rightarrow> nat
     \<Rightarrow> (exn + utteranceref list \<times> nat) option" where
  "pickutterance raw cs W i posbegin posend refs n =
     (case rand (raw n) posbegin posend of
        Inl e \<Rightarrow> Some (Inl e)
      | Inr j \<Rightarrow>
          if i = j then Some (Inr (refs, Suc n))
          else if j \<ge> length refs \<or> j \<ge> length W
          then Some (Inl (undefined_behaviour ''randomizedutterancerefs[j]''))
          else if \<not> isvalidforthisposition cs (W ! i) (refs ! j)
          then pickutterance raw cs W i posbegin posend refs (Suc n)
          else if \<not> isvalidforthisposition cs (W ! j) (refs ! i)
          then pickutterance raw cs W i posbegin posend refs (Suc n)
          else Some (Inr (swap_utterancerefs i j refs, Suc n)))"

declare pickutterance.simps [code]

text \<open>The \<^verbatim>\<open>for\<close> loop over the positions \<open>i\<close> around the retry loop.\<close>

fun randomizeutterances ::
  "(nat \<Rightarrow> nat) \<Rightarrow> utterancechunkdata list \<Rightarrow> chunk list \<Rightarrow> nat list \<Rightarrow> nat list
     \<Rightarrow> utteranceref list \<Rightarrow> nat \<Rightarrow> (exn + utteranceref list \<times> nat) option" where
  "randomizeutterances raw A cs W [] refs n = Some (Inr (refs, n))"
| "randomizeutterances raw A cs W (i # rest) refs n =
     (case positionrange A cs (W ! i) of
        Inl e \<Rightarrow> Some (Inl e)
      | Inr (posbegin, posend) \<Rightarrow>
          (case pickutterance raw cs W i posbegin posend refs n of
             None \<Rightarrow> None
           | Some (Inl e) \<Rightarrow> Some (Inl e)
           | Some (Inr (refs', n')) \<Rightarrow> randomizeutterances raw A cs W rest refs' n'))"

text \<open>
  Placing the utterances on the timeline from time \<open>t\<close> on: each one gets its start and
  its frame count, read from the chunk data it refers to.
\<close>

fun placeutterances :: "platform \<Rightarrow> utterancechunkdata list \<Rightarrow> chunk list \<Rightarrow> nat
    \<Rightarrow> utteranceref list \<Rightarrow> exn + utteranceref list" where
  "placeutterances P A cs t [] = Inr []"
| "placeutterances P A cs t (u # us) =
     (if chunkindex u \<ge> length cs
      then Inl (undefined_behaviour ''randomizedchunks[uttref.chunkindex]'')
      else if utteranceindex u \<ge> chunk_numutterances A (cs ! chunkindex u)
      then Inl (undefined_behaviour ''utteranceset[i]'')
      else let n = uttnumframes (utteranceset (A ! uttchunkdata (cs ! chunkindex u)) ! utteranceindex u);
               u' = u\<lparr>globalts := t, numframes := n\<rparr>
           in case placeutterances P A cs (globalte P u') us of
                Inl e \<Rightarrow> Inl e
              | Inr us' \<Rightarrow> Inr (u' # us'))"

text \<open>The verification loop and the lookup table from start times to positions.\<close>

definition verifyutterances :: "chunk list \<Rightarrow> nat list \<Rightarrow> utteranceref list \<Rightarrow> exn + unit" where
  "verifyutterances cs W refs =
     (if list_all (\<lambda>i. \<not> (chunkindex (refs ! i) < windowbegin (cs ! (W ! i)) \<or>
                          chunkindex (refs ! i) \<ge> windowend (cs ! (W ! i))))
                  [0..<length refs]
      then Inr ()
      else Inl (logic_error ''lazyrandomization: randomization logic mangled!''))"

definition buildposmap :: "utteranceref list \<Rightarrow> (nat \<rightharpoonup> nat)" where
  "buildposmap refs = fold (\<lambda>pos m. m(globalts (refs ! pos) \<mapsto> pos)) [0..<length refs] Map.empty"

definition randomizeutterancemode :: "platform \<Rightarrow> nat \<Rightarrow> nat \<Rightarrow> source \<Rightarrow> (exn + source) option" where
  "randomizeutterancemode P sweep sweepts st =
     (let A = allchunks st; cs = randomizedchunks st;
          W = initpositionchunkwindows A cs;
          refs0 = initutterancerefs P A cs
      in case randomizeutterances (rawrand P (unsigned_int (unsigned_int sweep + 1))) A cs W
                [0..<length refs0] refs0 0 of
           None \<Rightarrow> None
         | Some (Inl e) \<Rightarrow> Some (Inl e)
         | Some (Inr (refs1, n)) \<Rightarrow>
             (case placeutterances P A cs sweepts refs1 of
                Inl e \<Rightarrow> Some (Inl e)
              | Inr refs \<Rightarrow>
                  (case verifyutterances cs W refs of
                     Inl e \<Rightarrow> Some (Inl e)
                   | Inr _ \<Rightarrow>
                       Some (Inr (st\<lparr>positionchunkwindows := W,
                                      randomizedutterancerefs := refs,
                                      randomizedutteranceposmap := buildposmap refs\<rparr>)))))"

subsection \<open>Randomizing frame positions\<close>

definition checkoverflow :: "nat \<Rightarrow> nat \<Rightarrow> exn + unit" where
  "checkoverflow fieldval targetval =
     (if fieldval \<noteq> targetval then Inl (runtime_error ''checkoverflow: bit field too small'')
      else Inr ())"

text \<open>Storing a value into an unsigned field of \<open>w\<close> bits.\<close>

definition tofield :: "nat \<Rightarrow> nat \<Rightarrow> nat" where
  "tofield w v = v mod 2 ^ w"

text \<open>
  The three nested loops that enumerate chunks, utterances and frames in randomized
  chunk order; the state is the running index \<open>t\<close>, \<^verbatim>\<open>randomizedframerefs\<close> and
  \<^verbatim>\<open>ttochunk\<close> (a vector of \<^verbatim>\<open>unsigned short\<close>).
\<close>

definition enumerate_frame :: "platform \<Rightarrow> nat \<Rightarrow> nat \<Rightarrow> nat \<Rightarrow> nat \<times> frameref list \<times> nat list
    \<Rightarrow> exn + nat \<times> frameref list \<times> nat list" where
  "enumerate_frame P i k m s =
     (case s of (t, F, T) \<Rightarrow>
        (case checkoverflow (tofield (frameindex_bits P) m) m of
           Inl e \<Rightarrow> Inl e
         | Inr _ \<Rightarrow>
             if t \<ge> length F then Inl (undefined_behaviour ''randomizedframerefs[t]'')
             else if t \<ge> length T then Inl (undefined_behaviour ''ttochunk[t]'')
             else (case checkoverflow (tofield 16 i) i of
                     Inl e \<Rightarrow> Inl e
                   | Inr _ \<Rightarrow>
                       Inr (Suc t,
                            F[t := \<lparr>fr_chunkindex = tofield (chunkindex_bits P) i,
                                    fr_utteranceindex = tofield (utteranceindex_bits P) k,
                                    fr_frameindex = tofield (frameindex_bits P) m\<rparr>],
                            T[t := tofield 16 i]))))"

definition enumerate_utterance :: "platform \<Rightarrow> utterancechunkdata \<Rightarrow> nat \<Rightarrow> nat
    \<Rightarrow> nat \<times> frameref list \<times> nat list \<Rightarrow> exn + nat \<times> frameref list \<times> nat list" where
  "enumerate_utterance P c i k s =
     (case checkoverflow (tofield (utteranceindex_bits P) k) k of
        Inl e \<Rightarrow> Inl e
      | Inr _ \<Rightarrow> foreach [0..<uttnumframes (utteranceset c ! k)] (enumerate_frame P i k) s)"

definition enumerate_chunk :: "platform \<Rightarrow> utterancechunkdata list \<Rightarrow> chunk list \<Rightarrow> nat
    \<Rightarrow> nat \<times> frameref list \<times> nat list \<Rightarrow> exn + nat \<times> frameref list \<times> nat list" where
  "enumerate_chunk P A cs i s =
     (case checkoverflow (tofield (chunkindex_bits P) i) i of
        Inl e \<Rightarrow> Inl e
      | Inr _ \<Rightarrow>
          let c = A ! uttchunkdata (cs ! i)
          in foreach [0..<numutterances c] (enumerate_utterance P c i) s)"

definition enumerateframes :: "platform \<Rightarrow> utterancechunkdata list \<Rightarrow> chunk list
    \<Rightarrow> nat \<times> frameref list \<times> nat list \<Rightarrow> exn + nat \<times> frameref list \<times> nat list" where
  "enumerateframes P A cs s = foreach [0..<length cs] (enumerate_chunk P A cs) s"

definition isframepositionvalid :: "chunk list \<Rightarrow> nat list \<Rightarrow> frameref list \<Rightarrow> nat \<Rightarrow> bool" where
  "isframepositionvalid cs T F t =
     (let positionchunkindex = T ! t;
          poswindowbegin = windowbegin (cs ! positionchunkindex);
          poswindowend = windowend (cs ! positionchunkindex);
          actualchunkindexforpos = fr_chunkindex (F ! t)
      in actualchunkindexforpos \<ge> poswindowbegin \<and> actualchunkindexforpos < poswindowend)"

text \<open>
  The retry loop for frame position \<open>t\<close>, with both admissibility checks, the swap, the
  post-check and the swap back.
\<close>

partial_function (option) pickframe ::
  "(nat \<Rightarrow> nat) \<Rightarrow> chunk list \<Rightarrow> nat list \<Rightarrow> nat \<Rightarrow> nat \<Rightarrow> nat \<Rightarrow> nat \<Rightarrow> nat \<Rightarrow> frameref list \<Rightarrow> nat
     \<Rightarrow> (exn + frameref list \<times> nat) option" where
  "pickframe raw cs T t poswindowbegin poswindowend postbegin postend F n =
     (case rand (raw n) postbegin postend of
        Inl e \<Rightarrow> Some (Inl e)
      | Inr tswap \<Rightarrow>
          if tswap \<ge> length F \<or> tswap \<ge> length T
          then Some (Inl (undefined_behaviour ''randomizedframerefs[tswap]''))
          else if fr_chunkindex (F ! tswap) < poswindowbegin \<or> fr_chunkindex (F ! tswap) \<ge> poswindowend
          then pickframe raw cs T t poswindowbegin poswindowend postbegin postend F (Suc n)
          else if T ! tswap \<ge> length cs
          then Some (Inl (undefined_behaviour ''randomizedchunks[targetchunkindex]''))
          else if fr_chunkindex (F ! t) < windowbegin (cs ! (T ! tswap)) \<or>
                  fr_chunkindex (F ! t) \<ge> windowend (cs ! (T ! tswap))
          then pickframe raw cs T t poswindowbegin poswindowend postbegin postend F (Suc n)
          else if isframepositionvalid cs T (swap_at t tswap F) t \<and>
                  isframepositionvalid cs T (swap_at t tswap F) tswap
          then Some (Inr (swap_at t tswap F, Suc n))
          else pickframe raw cs T t poswindowbegin poswindowend postbegin postend
                 (swap_at t tswap (swap_at t tswap F)) (Suc n))"

declare pickframe.simps [code]

text \<open>The window of frame position \<open>t\<close> and the range of frame positions it spans.\<close>

definition framerange :: "platform \<Rightarrow> utterancechunkdata list \<Rightarrow> chunk list \<Rightarrow> nat list \<Rightarrow> nat
    \<Rightarrow> nat \<Rightarrow> exn + (nat \<times> nat) \<times> (nat \<times> nat)" where
  "framerange P A cs T sweepts t =
     (if t \<ge> length T then Inl (undefined_behaviour ''ttochunk[t]'')
      else if T ! t \<ge> length cs then Inl (undefined_behaviour ''randomizedchunks[positionchunkindex]'')
      else let poswindowbegin = windowbegin (cs ! (T ! t));
               poswindowend = windowend (cs ! (T ! t))
           in if poswindowbegin \<ge> length cs
              then Inl (undefined_behaviour ''randomizedchunks[poswindowbegin]'')
              else if poswindowend = 0 \<or> poswindowend - 1 \<ge> length cs
              then Inl (undefined_behaviour ''randomizedchunks[poswindowend-1]'')
              else Inr ((poswindowbegin, poswindowend),
                        (size_minus P (chunk_globalts (cs ! poswindowbegin)) sweepts,
                         size_minus P (chunk_globalte P A (cs ! (poswindowend - 1))) sweepts)))"

fun randomizeframes ::
  "platform \<Rightarrow> (nat \<Rightarrow> nat) \<Rightarrow> utterancechunkdata list \<Rightarrow> chunk list \<Rightarrow> nat list \<Rightarrow> nat
     \<Rightarrow> nat list \<Rightarrow> frameref list \<Rightarrow> nat \<Rightarrow> (exn + frameref list \<times> nat) option" where
  "randomizeframes P raw A cs T sweepts [] F n = Some (Inr (F, n))"
| "randomizeframes P raw A cs T sweepts (t # rest) F n =
     (case framerange P A cs T sweepts t of
        Inl e \<Rightarrow> Some (Inl e)
      | Inr ((poswindowbegin, poswindowend), (postbegin, postend)) \<Rightarrow>
          (case pickframe raw cs T t poswindowbegin poswindowend postbegin postend F n of
             None \<Rightarrow> None
           | Some (Inl e) \<Rightarrow> Some (Inl e)
           | Some (Inr (F', n')) \<Rightarrow> randomizeframes P raw A cs T sweepts rest F' n'))"

text \<open>The final check, again as three nested loops over a running \<open>t\<close>.\<close>

definition check_frame :: "chunk list \<Rightarrow> frameref list \<Rightarrow> nat \<Rightarrow> nat \<Rightarrow> nat \<Rightarrow> exn + nat" where
  "check_frame cs F i m t =
     (if t \<ge> length F then Inl (undefined_behaviour ''randomizedframerefs[t]'')
      else if fr_chunkindex (F ! t) < windowbegin (cs ! i) \<or> fr_chunkindex (F ! t) \<ge> windowend (cs ! i)
      then Inl (logic_error ''lazyrandomization: nope, you got frame randomization wrong, dude'')
      else Inr (Suc t))"

definition check_utterance :: "chunk list \<Rightarrow> frameref list \<Rightarrow> utterancechunkdata \<Rightarrow> nat \<Rightarrow> nat \<Rightarrow> nat
    \<Rightarrow> exn + nat" where
  "check_utterance cs F c i k t = foreach [0..<uttnumframes (utteranceset c ! k)] (check_frame cs F i) t"

definition check_chunk :: "utterancechunkdata list \<Rightarrow> chunk list \<Rightarrow> frameref list \<Rightarrow> nat \<Rightarrow> nat
    \<Rightarrow> exn + nat" where
  "check_chunk A cs F i t =
     (let c = A ! uttchunkdata (cs ! i)
      in foreach [0..<numutterances c] (check_utterance cs F c i) t)"

definition checkframes :: "utterancechunkdata list \<Rightarrow> chunk list \<Rightarrow> frameref list \<Rightarrow> exn + nat" where
  "checkframes A cs F = foreach [0..<length cs] (check_chunk A cs F) 0"

definition randomizeframemode :: "platform \<Rightarrow> nat \<Rightarrow> nat \<Rightarrow> source \<Rightarrow> (exn + source) option" where
  "randomizeframemode P sweep sweepts st =
     (let A = allchunks st; cs = randomizedchunks st;
          ttochunk = vector_resize (corpus_totalframes st) 0 []
      in case enumerateframes P A cs (0, randomizedframerefs st, ttochunk) of
           Inl e \<Rightarrow> Some (Inl e)
         | Inr (t, F0, T) \<Rightarrow>
             (case randomizeframes P (rawrand P (unsigned_int (unsigned_int sweep + 1))) A cs T sweepts
                     [0..<length F0] F0 0 of
                None \<Rightarrow> None
              | Some (Inl e) \<Rightarrow> Some (Inl e)
              | Some (Inr (F, n)) \<Rightarrow>
                  (case checkframes A cs F of
                     Inl e \<Rightarrow> Some (Inl e)
                   | Inr _ \<Rightarrow> Some (Inr (st\<lparr>randomizedframerefs := F\<rparr>)))))"

subsection \<open>\<^verbatim>\<open>lazyrandomization\<close>\<close>

text \<open>
  The rebuild for a new sweep. An exception that leaves \<^verbatim>\<open>lazyrandomization\<close> ends
  the use of the object in this model: no state is returned with it.
\<close>

definition rerandomize :: "platform \<Rightarrow> nat \<Rightarrow> source \<Rightarrow> (exn + source) option" where
  "rerandomize P sweep st0 =
     (let st = st0\<lparr>currentsweep := sweep\<rparr>;
          sweepts = size_t P (sweep * corpus_totalframes st);
          A = allchunks st
      in case randomshuffle P [0..<length A] sweep of
           Inl e \<Rightarrow> Some (Inl e)
         | Inr randomizedchunkrefs \<Rightarrow>
             (case computewindows P A (randomizationrange st) (placechunks P A sweepts randomizedchunkrefs) of
                Inl e \<Rightarrow> Some (Inl e)
              | Inr cs \<Rightarrow>
                  if \<not> framemode st
                  then randomizeutterancemode P sweep sweepts (st\<lparr>randomizedchunks := cs\<rparr>)
                  else randomizeframemode P sweep sweepts (st\<lparr>randomizedchunks := cs\<rparr>)))"

definition lazyrandomization :: "platform \<Rightarrow> nat \<Rightarrow> source \<Rightarrow> (exn + nat \<times> source) option" where
  "lazyrandomization P t st =
     (if corpus_totalframes st = 0
      then Some (Inl (undefined_behaviour ''globalts / _totalframes''))
      else let sweep = t div corpus_totalframes st
           in if sweep = currentsweep st then Some (Inr (sweep, st))
              else case rerandomize P sweep st of
                     None \<Rightarrow> None
                   | Some (Inl e) \<Rightarrow> Some (Inl e)
                   | Some (Inr st') \<Rightarrow> Some (Inr (sweep, st')))"

subsection \<open>\<^verbatim>\<open>getbatch\<close>\<close>

text \<open>
  What \<^verbatim>\<open>getbatch\<close> hands back: the feature matrix (its dimensions; the values come
  from the reader and \<^verbatim>\<open>augmentneighbors\<close>, both outside this class), the class ids,
  the transcripts, the lattice pointers and the returned flag. \<open>positions\<close> is the range
  \<open>(spos, epos)\<close> of utterance positions that the log line of utterance mode names; in
  frame mode it is the range of frame times. The output vectors are taken to be empty
  on entry.
\<close>

record batch =
  feat :: matrix
  uids :: "nat list"
  transcripts :: "nat list list"
  latticepairs :: "string option list"
  positions :: "nat \<times> nat"
  readfromdisk :: bool

text \<open>
  The loop that adds utterances "as long as they fit": \<open>epos\<close> and \<open>mbframes\<close> are the
  loop variables, \<open>numutt\<close> is the member \<^verbatim>\<open>numutterances\<close>.
\<close>

function addutterances :: "utteranceref list \<Rightarrow> nat \<Rightarrow> nat \<Rightarrow> nat \<Rightarrow> nat \<Rightarrow> exn + nat \<times> nat" where
  "addutterances refs numutt framesrequested epos mbframes =
     (if epos < numutt
      then if epos \<ge> length refs
           then Inl (undefined_behaviour ''randomizedutterancerefs[epos]'')
           else if mbframes + numframes (refs ! epos) < framesrequested
           then addutterances refs numutt framesrequested (Suc epos) (mbframes + numframes (refs ! epos))
           else Inr (epos, mbframes)
      else Inr (epos, mbframes))"
  by pat_completeness auto
termination
  by (relation "measure (\<lambda>(refs, numutt, framesrequested, epos, mbframes). numutt - epos)") auto

declare addutterances.simps [simp del]

text \<open>
  \<^verbatim>\<open>getclassids\<close>: the start and length of the utterance's labels in \<^verbatim>\<open>classids\<close>,
  after the check of the boundary marker; \<open>(0, 0)\<close> when unsupervised.
\<close>

definition getclassids :: "platform \<Rightarrow> source \<Rightarrow> nat \<Rightarrow> nat \<Rightarrow> exn + nat \<times> nat" where
  "getclassids P st ci ui =
     (if \<not> issupervised st then Inr (0, 0)
      else if ci \<ge> length (randomizedchunks st)
      then Inl (undefined_behaviour ''randomizedchunks[uttref.chunkindex]'')
      else let chunkdata = allchunks st ! uttchunkdata (randomizedchunks st ! ci)
           in if ui \<ge> numutterances chunkdata then Inl (undefined_behaviour ''utteranceset[i]'')
              else let first = classidsbegin (utteranceset chunkdata ! ui);
                       n = uttnumframes (utteranceset chunkdata ! ui)
                   in if first + n \<ge> length (classids st)
                      then Inl (undefined_behaviour ''classids[classidsbegin + n]'')
                      else if classids st ! (first + n) \<noteq> boundarymarker P
                      then Inl (logic_error ''getclassids: expected boundary marker not found, internal data structure screwed up'')
                      else Inr (first, n))"

text \<open>
  \<^verbatim>\<open>getutteranceframes\<close>: the number of columns of the stripe of utterance \<open>ui\<close>.
\<close>

definition getutteranceframes :: "utterancechunkdata \<Rightarrow> nat \<Rightarrow> exn + nat" where
  "getutteranceframes chunkdata ui =
     (if \<not> isinram chunkdata
      then Inl (logic_error ''getutteranceframes: called when data have not been paged in'')
      else if ui \<ge> length (firstframes chunkdata) \<or> ui \<ge> numutterances chunkdata
      then Inl (undefined_behaviour ''firstframes[i]'')
      else Inr (uttnumframes (utteranceset chunkdata ! ui)))"

text \<open>
  The body of the loop that returns the utterances; the state is \<open>tspos\<close> and the three
  output vectors.
\<close>

definition copyutterance :: "platform \<Rightarrow> source \<Rightarrow> nat
    \<Rightarrow> nat \<times> nat list \<times> string option list \<times> nat list list
    \<Rightarrow> exn + nat \<times> nat list \<times> string option list \<times> nat list list" where
  "copyutterance P st pos s =
     (case s of (tspos, U, L, Tr) \<Rightarrow>
        let uttref = randomizedutterancerefs st ! pos;
            ci = chunkindex uttref; ui = utteranceindex uttref
        in if ci \<ge> length (randomizedchunks st)
           then Inl (undefined_behaviour ''randomizedchunks[uttref.chunkindex]'')
           else let chunkdata = allchunks st ! uttchunkdata (randomizedchunks st ! ci)
                in case getutteranceframes chunkdata ui of
                     Inl e \<Rightarrow> Inl e
                   | Inr n \<Rightarrow>
                       (case getclassids P st ci ui of
                          Inl e \<Rightarrow> Inl e
                        | Inr (first, cn) \<Rightarrow>
                            if issupervised st \<and> tspos + n > length U
                            then Inl (undefined_behaviour ''uids[t + tspos]'')
                            else let U' = (if issupervised st
                                           then fold (\<lambda>t U. U[t + tspos := classids st ! (first + t)]) [0..<n] U
                                           else U)
                                 in if latticesource_empty st then Inr (tspos + n, U', L, Tr)
                                    else if ui \<ge> length (lattices chunkdata)
                                    then Inl (undefined_behaviour ''lattices[i]'')
                                    else (case lattices chunkdata ! ui of
                                            None \<Rightarrow> Inl (undefined_behaviour ''latticepair->getkey()'')
                                          | Some k \<Rightarrow>
                                              if allwordtranscripts st = []
                                              then Inr (tspos + n, U', L @ [Some k], Tr)
                                              else (case map_of (allwordtranscripts st) k of
                                                      None \<Rightarrow> Inl (undefined_behaviour ''allwordtranscripts.find (key)->second'')
                                                    | Some w \<Rightarrow> Inr (tspos + n, U', L @ [Some k], Tr @ [w])))))"

text \<open>One step of a paging loop that accumulates \<^verbatim>\<open>readfromdisk\<close>.\<close>

definition requirestep :: "(nat \<Rightarrow> loadenv) \<Rightarrow> nat \<Rightarrow> nat \<Rightarrow> nat \<Rightarrow> bool \<times> source \<Rightarrow> exn + bool \<times> source" where
  "requirestep io k wbegin wend s =
     (case s of (rd, st) \<Rightarrow>
        (case requirerandomizedchunk io k wbegin wend st of
           (Inl e, st') \<Rightarrow> Inl e
         | (Inr b, st') \<Rightarrow> Inr (rd \<or> b, st')))"

definition getbatch_utterancemode :: "platform \<Rightarrow> (nat \<Rightarrow> loadenv) \<Rightarrow> nat \<Rightarrow> nat \<Rightarrow> source
    \<Rightarrow> exn + batch \<times> source" where
  "getbatch_utterancemode P io ts framesrequested st =
     (case randomizedutteranceposmap st ts of
        None \<Rightarrow> Inl (logic_error ''getbatch: invalid 'globalts' parameter; must match an existing utterance boundary'')
      | Some spos \<Rightarrow>
          if spos \<ge> length (randomizedutterancerefs st)
          then Inl (undefined_behaviour ''randomizedutterancerefs[spos]'')
          else
          (case addutterances (randomizedutterancerefs st) (corpus_numutterances st) framesrequested
                  (spos + 1) (numframes (randomizedutterancerefs st ! spos)) of
             Inl e \<Rightarrow> Inl e
           | Inr (epos, mbframes) \<Rightarrow>
               if epos - 1 \<ge> length (positionchunkwindows st)
               then Inl (undefined_behaviour ''positionchunkwindows[epos-1]'')
               else
               let wbegin = windowbegin (randomizedchunks st ! (positionchunkwindows st ! spos));
                   wend = windowend (randomizedchunks st ! (positionchunkwindows st ! (epos - 1)))
               in case foreach [0..<wbegin] (releaserandomizedchunk P) st of
                    Inl e \<Rightarrow> Inl e
                  | Inr st1 \<Rightarrow>
                 (case foreach [wend..<length (randomizedchunks st1)] (releaserandomizedchunk P) st1 of
                    Inl e \<Rightarrow> Inl e
                  | Inr st2 \<Rightarrow>
                 (case foreach [spos..<epos]
                         (\<lambda>pos s. if pos \<ge> length (randomizedutterancerefs (snd s))
                                  then Inl (undefined_behaviour ''randomizedutterancerefs[pos]'')
                                  else requirestep io (chunkindex (randomizedutterancerefs (snd s) ! pos)) wbegin wend s)
                         (False, st2) of
                    Inl e \<Rightarrow> Inl e
                  | Inr (rd, st3) \<Rightarrow>
                 (case foreach [spos..<epos] (copyutterance P st3)
                         (0, if issupervised st3 then vector_resize mbframes 0 [] else [], [], []) of
                    Inl e \<Rightarrow> Inl e
                  | Inr (tspos, U, L, Tr) \<Rightarrow>
                      Inr (\<lparr>feat = matrix_resize (vdim st3) mbframes, uids = U, transcripts = Tr,
                            latticepairs = L, positions = (spos, epos), readfromdisk = rd\<rparr>, st3))))))"

text \<open>
  \<^verbatim>\<open>std::lower_bound\<close> over the elements \<open>[first, first + count)\<close>: the bisection of
  the standard library, which halves the range whether or not the predicate partitions
  it.
\<close>

function lower_bound :: "('a \<Rightarrow> bool) \<Rightarrow> 'a list \<Rightarrow> nat \<Rightarrow> nat \<Rightarrow> nat" where
  "lower_bound before xs first count =
     (if count = 0 then first
      else let step = count div 2; it = first + step
           in if before (xs ! it)
              then lower_bound before xs (Suc it) (count - (step + 1))
              else lower_bound before xs first step)"
  by pat_completeness auto
termination
  by (relation "measure (\<lambda>(before, xs, first, count). count)") auto

declare lower_bound.simps [simp del]

text \<open>
  \<^verbatim>\<open>chunkforframepos\<close>: the search for the first chunk that does not end at or before
  \<open>t\<close>; the chunk found is read without a check.
\<close>

definition chunkforframepos :: "platform \<Rightarrow> utterancechunkdata list \<Rightarrow> chunk list \<Rightarrow> nat
    \<Rightarrow> exn + nat" where
  "chunkforframepos P A cs t =
     (let k = lower_bound (\<lambda>c. chunk_globalte P A c \<le> t) cs 0 (length cs)
      in if k \<ge> length cs then Inl (undefined_behaviour ''randomizedchunks[chunkindex]'')
         else if t < chunk_globalts (cs ! k) \<or> t \<ge> chunk_globalte P A (cs ! k)
         then Inl (logic_error ''chunkforframepos: dude, learn STL!'')
         else Inr k)"

text \<open>The body of the loop that returns the frames of frame mode.\<close>

definition copyframe :: "platform \<Rightarrow> (nat \<Rightarrow> loadenv) \<Rightarrow> nat \<Rightarrow> nat \<Rightarrow> nat \<Rightarrow> nat
    \<Rightarrow> (bool \<times> source) \<times> nat list \<Rightarrow> exn + (bool \<times> source) \<times> nat list" where
  "copyframe P io ts wbegin wend j s =
     (case s of ((rd, st), U) \<Rightarrow>
        let framepos = size_t P (ts + j) mod corpus_totalframes st
        in if framepos \<ge> length (randomizedframerefs st)
           then Inl (undefined_behaviour ''randomizedframerefs[framepos]'')
           else let fr = randomizedframerefs st ! framepos
                in case requirestep io (fr_chunkindex fr) wbegin wend (rd, st) of
                     Inl e \<Rightarrow> Inl e
                   | Inr (rd', st') \<Rightarrow>
                       let chunkdata = allchunks st' ! uttchunkdata (randomizedchunks st' ! fr_chunkindex fr)
                       in case getutteranceframes chunkdata (fr_utteranceindex fr) of
                            Inl e \<Rightarrow> Inl e
                          | Inr n \<Rightarrow>
                              if \<not> issupervised st' then Inr ((rd', st'), U)
                              else (case getclassids P st' (fr_chunkindex fr) (fr_utteranceindex fr) of
                                      Inl e \<Rightarrow> Inl e
                                    | Inr (first, cn) \<Rightarrow>
                                        if fr_frameindex fr \<ge> cn
                                        then Inl (logic_error ''shiftedvector: index out of bounds'')
                                        else if j \<ge> length U then Inl (undefined_behaviour ''uids[j]'')
                                        else Inr ((rd', st'), U[j := classids st' ! (first + fr_frameindex fr)])))"

definition getbatch_framemode :: "platform \<Rightarrow> (nat \<Rightarrow> loadenv) \<Rightarrow> nat \<Rightarrow> nat \<Rightarrow> nat \<Rightarrow> source
    \<Rightarrow> exn + batch \<times> source" where
  "getbatch_framemode P io ts framesrequested sweep st =
     (let sweepts = size_t P (sweep * corpus_totalframes st);
          sweepte = size_t P (sweepts + corpus_totalframes st);
          te = min (size_t P (ts + framesrequested)) sweepte;
          mbframes = size_minus P te ts
      in case chunkforframepos P (allchunks st) (randomizedchunks st) ts of
           Inl e \<Rightarrow> Inl e
         | Inr firstchunk \<Rightarrow>
        (case chunkforframepos P (allchunks st) (randomizedchunks st) (size_minus P te 1) of
           Inl e \<Rightarrow> Inl e
         | Inr lastchunk \<Rightarrow>
             let wbegin = windowbegin (randomizedchunks st ! firstchunk);
                 wend = windowend (randomizedchunks st ! lastchunk)
             in case foreach [0..<wbegin] (releaserandomizedchunk P) st of
                  Inl e \<Rightarrow> Inl e
                | Inr st1 \<Rightarrow>
               (case foreach [wbegin..<wend] (\<lambda>k. requirestep io k wbegin wend) (False, st1) of
                  Inl e \<Rightarrow> Inl e
                | Inr (rd, st2) \<Rightarrow>
               (case foreach [wend..<length (randomizedchunks st2)] (releaserandomizedchunk P) st2 of
                  Inl e \<Rightarrow> Inl e
                | Inr st3 \<Rightarrow>
               (case foreach [0..<mbframes] (copyframe P io ts wbegin wend)
                       ((rd, st3), if issupervised st3 then vector_resize mbframes 0 [] else []) of
                  Inl e \<Rightarrow> Inl e
                | Inr ((rd', st4), U) \<Rightarrow>
                    Inr (\<lparr>feat = matrix_resize (vdim st4) mbframes, uids = U, transcripts = [],
                          latticepairs = [], positions = (ts, te), readfromdisk = rd'\<rparr>, st4))))))"

text \<open>
  \<^verbatim>\<open>getbatch\<close> (the overload with one feature matrix): \<open>ts\<close> is the parameter
  \<^verbatim>\<open>globalts\<close>. \<open>None\<close> is a call that never returns because the randomization
  does not.
\<close>

definition getbatch :: "platform \<Rightarrow> (nat \<Rightarrow> loadenv) \<Rightarrow> nat \<Rightarrow> nat \<Rightarrow> source
    \<Rightarrow> (exn + batch \<times> source) option" where
  "getbatch P io ts framesrequested st =
     (case lazyrandomization P ts st of
        None \<Rightarrow> None
      | Some (Inl e) \<Rightarrow> Some (Inl e)
      | Some (Inr (sweep, st')) \<Rightarrow>
          Some (if \<not> framemode st'
                then getbatch_utterancemode P io ts framesrequested st'
                else getbatch_framemode P io ts framesrequested sweep st'))"

subsection \<open>\<^verbatim>\<open>firstvalidglobalts\<close>\<close>

definition firstvalidglobalts :: "platform \<Rightarrow> nat \<Rightarrow> source \<Rightarrow> (exn + nat \<times> source) option" where
  "firstvalidglobalts P ts st =
     (case lazyrandomization P ts st of
        None \<Rightarrow> None
      | Some (Inl e) \<Rightarrow> Some (Inl e)
      | Some (Inr (sweep, st')) \<Rightarrow>
          Some (if framemode st' then Inr (ts, st')
                else case find (\<lambda>u. globalts u \<ge> ts) (randomizedutterancerefs st') of
                       Some u \<Rightarrow> Inr (globalts u, st')
                     | None \<Rightarrow>
                         if randomizedutterancerefs st' = []
                         then Inl (undefined_behaviour ''randomizedutterancerefs.back()'')
                         else Inr (globalte P (last (randomizedutterancerefs st')), st')))"

subsection \<open>Consistency of the cached randomization\<close>

text \<open>
  What \<^verbatim>\<open>getbatch\<close> relies on between two rebuilds in utterance mode: the lookup table
  is the one built from the utterance references. It holds for the object the
  constructor makes (both are empty) and every rebuild establishes it again.
\<close>

definition randomization_consistent :: "source \<Rightarrow> bool" where
  "randomization_consistent st \<longleftrightarrow>
     randomizedutteranceposmap st = buildposmap (randomizedutterancerefs st)"

text \<open>
  The corpus as the constructor leaves it: the frame count of a chunk is the sum over
  its utterances, \<^verbatim>\<open>_totalframes\<close> is the sum over the chunks, and it is a value of
  \<^verbatim>\<open>size_t\<close>.
\<close>

definition corpus_consistent :: "platform \<Rightarrow> source \<Rightarrow> bool" where
  "corpus_consistent P st \<longleftrightarrow>
     list_all (\<lambda>c. totalframes c = sum_list (map uttnumframes (utteranceset c))) (allchunks st) \<and>
     corpus_totalframes st = sum_list (map totalframes (allchunks st)) \<and>
     corpus_totalframes st \<le> SIZE_MAX P"

text \<open>
  The cached utterance positions lie end to end on the timeline of the cached sweep:
  position \<open>i\<close> starts where the sweep starts plus the frames of the positions before it
  (in \<^verbatim>\<open>size_t\<close> arithmetic), and together they have no more frames than the corpus.
  The object the constructor makes has no position; frame mode keeps none.
\<close>

definition timeline_consistent :: "platform \<Rightarrow> source \<Rightarrow> bool" where
  "timeline_consistent P st \<longleftrightarrow>
     framemode st \<or>
     (list_all (\<lambda>i. globalts (randomizedutterancerefs st ! i)
                     = size_t P (currentsweep st * corpus_totalframes st
                                 + sum_list (map numframes (take i (randomizedutterancerefs st)))))
               [0..<length (randomizedutterancerefs st)] \<and>
      sum_list (map numframes (randomizedutterancerefs st)) \<le> corpus_totalframes st)"

text \<open>
  The part of the object that paging leaves alone: the corpus sizes and the cached
  randomization.
\<close>

definition snapshot :: "source \<Rightarrow> bool \<times> nat \<times> nat \<times> nat \<times> nat \<times> chunk list \<times> utteranceref list
    \<times> (nat \<rightharpoonup> nat) \<times> nat list \<times> frameref list" where
  "snapshot st = (framemode st, vdim st, corpus_numutterances st, corpus_totalframes st,
                  currentsweep st, randomizedchunks st, randomizedutterancerefs st,
                  randomizedutteranceposmap st, positionchunkwindows st, randomizedframerefs st)"

subsection \<open>Window validity\<close>

text \<open>
  The invariant of the randomization, for a given assignment of defining chunks to
  positions: the item at every position lives in a chunk inside the window of the
  position's defining chunk.
\<close>

definition utterancesvalid :: "chunk list \<Rightarrow> nat list \<Rightarrow> utteranceref list \<Rightarrow> bool" where
  "utterancesvalid cs W refs =
     list_all (\<lambda>i. isvalidforthisposition cs (W ! i) (refs ! i)) [0..<length refs]"

definition framesvalid :: "chunk list \<Rightarrow> nat list \<Rightarrow> frameref list \<Rightarrow> bool" where
  "framesvalid cs T F = list_all (isframepositionvalid cs T F) [0..<length F]"

text \<open>
  Frame position \<open>t\<close> holds a frame of a chunk within the window of randomized chunk \<open>k\<close>.
\<close>

definition framewithin :: "chunk list \<Rightarrow> frameref list \<Rightarrow> nat \<Rightarrow> nat \<Rightarrow> bool" where
  "framewithin cs F k t \<longleftrightarrow>
     t < length F \<and> windowbegin (cs ! k) \<le> fr_chunkindex (F ! t) \<and>
     fr_chunkindex (F ! t) < windowend (cs ! k)"

subsection \<open>The constructor\<close>

text \<open>
  An entry of \<^verbatim>\<open>infiles\<close> after parsing (the parser is in htkfeatio.h, outside src/):
  the key of the utterance and its frame count, which is absent when the path gives no
  frame bounds (\<^verbatim>\<open>numframes()\<close> then throws). A label entry is an
  \<^verbatim>\<open>htkmlfentry\<close>; the label set is an association list.
\<close>

record parsedpath =
  logicalkey :: string
  framebounds :: "nat option"

record htkmlfentry =
  firstframe :: nat
  entry_numframes :: nat
  classid :: nat

record latticesource =
  lattices_empty :: bool
  haslattice :: "string \<Rightarrow> bool"

text \<open>The messages written to \<^verbatim>\<open>stderr\<close> while the files are scanned.\<close>

datatype diagnostic =
    skipping_file nat nat
  | no_labels string
  | no_lattice string
  | duration_mismatch nat nat string

text \<open>The local variables of the scan loop.\<close>

record scan =
  scan_utteranceset :: "utterancedesc list"
  scan_classids :: "nat list"
  scan_counts :: "nat list"
  numclasses :: nat
  nomlf :: nat
  nolat :: nat
  scan_totalframes :: nat

definition scan_start :: scan where
  "scan_start = \<lparr>scan_utteranceset = [], scan_classids = [], scan_counts = [], numclasses = 0,
                  nomlf = 0, nolat = 0, scan_totalframes = 0\<rparr>"

text \<open>
  The loop over the entries of a label sequence, which expands the class ids into the
  flat array; the state is \<^verbatim>\<open>classids\<close>, \<^verbatim>\<open>counts\<close> and \<^verbatim>\<open>numclasses\<close>.
\<close>

definition expandentry :: "platform \<Rightarrow> nat \<Rightarrow> htkmlfentry list \<Rightarrow> nat \<Rightarrow> nat list \<times> nat list \<times> nat
    \<Rightarrow> exn + nat list \<times> nat list \<times> nat" where
  "expandentry P udim labseq i s =
     (case s of (cl, cnt, nc) \<Rightarrow>
        let e = labseq ! i
        in if (i > 0 \<and> firstframe (labseq ! (i - 1)) + entry_numframes (labseq ! (i - 1)) \<noteq> firstframe e)
              \<or> (i = 0 \<and> firstframe e \<noteq> 0)
           then Inl (runtime_error ''minibatchutterancesource: labels not in consecutive order MLF in label set'')
           else if classid e \<ge> udim
           then Inl (runtime_error ''minibatchutterancesource: class id exceeds model output dimension'')
           else if classid e \<noteq> tofield (CLASSIDTYPE_bits P) (classid e)
           then Inl (runtime_error ''CLASSIDTYPE has too few bits'')
           else let cl' = cl @ replicate (entry_numframes e) (classid e);
                    nc' = max nc (1 + classid e);
                    cnt' = vector_resize nc' 0 cnt
                in Inr (cl', cnt'[classid e := cnt' ! classid e + entry_numframes e], nc'))"

text \<open>"OK, utterance has all we need --remember it", with the consistency check.\<close>

definition remember :: "bool \<Rightarrow> utterancedesc \<Rightarrow> scan \<Rightarrow> exn + scan" where
  "remember labels_empty utterance s =
     (let s' = s\<lparr>scan_utteranceset := scan_utteranceset s @ [utterance],
                 scan_totalframes := scan_totalframes s + uttnumframes utterance\<rparr>
      in if \<not> labels_empty \<and>
            length (scan_classids s') \<noteq> scan_totalframes s' + length (scan_utteranceset s')
         then Inl (logic_error ''minibatchutterancesource: label duration inconsistent with feature file in MLF label set'')
         else Inr s')"

text \<open>
  One iteration of \<^verbatim>\<open>foreach_index (i, infiles)\<close>: the new loop state and the messages
  of this iteration, or the exception that ends the constructor.
\<close>

definition scanfile :: "platform \<Rightarrow> (string \<times> htkmlfentry list) list \<Rightarrow> latticesource \<Rightarrow> nat
    \<Rightarrow> nat \<Rightarrow> parsedpath \<Rightarrow> scan \<Rightarrow> exn + scan \<times> diagnostic list" where
  "scanfile P labels lat udim i infile s =
     (case framebounds infile of
        None \<Rightarrow> Inl (runtime_error ''parsedpath: frame bounds not given'')
      | Some uttframes \<Rightarrow>
          if uttframes < 2
          then Inl (runtime_error ''minibatchutterancesource: utterances < 2 frames not supported'')
          else if uttframes > maxframesperutterance P
          then Inr (s, [skipping_file i uttframes])
          else
            let utterance = \<lparr>key = logicalkey infile, uttnumframes = uttframes,
                             classidsbegin = (if labels = [] then 0 else length (scan_classids s))\<rparr>;
                lacksmlf = (map_of labels (key utterance) = None);
                lackslat = (\<not> lattices_empty lat \<and> \<not> haslattice lat (key utterance))
            in if labels \<noteq> [] \<and> (lacksmlf \<or> lackslat)
               then Inr (s\<lparr>nomlf := (if lacksmlf then nomlf s + 1 else nomlf s),
                           nolat := (if lackslat then nolat s + 1 else nolat s)\<rparr>,
                         (if lacksmlf \<and> nomlf s < 5 then [no_labels (key utterance)] else []) @
                         (if lackslat \<and> nolat s < 5 then [no_lattice (key utterance)] else []))
               else if labels = []
               then (case remember True utterance s of Inl e \<Rightarrow> Inl e | Inr s' \<Rightarrow> Inr (s', []))
               else
                 (case map_of labels (key utterance) of
                    None \<Rightarrow> (case remember False utterance s of Inl e \<Rightarrow> Inl e | Inr s' \<Rightarrow> Inr (s', []))
                  | Some labseq \<Rightarrow>
                      let labframes = (if labseq = [] then 0
                                       else firstframe (last labseq) + entry_numframes (last labseq))
                      in if labframes \<noteq> uttframes
                         then Inr (s\<lparr>nomlf := nomlf s + 1\<rparr>,
                                   [duration_mismatch labframes uttframes (key utterance)])
                         else
                           (case foreach [0..<length labseq] (expandentry P udim labseq)
                                   (scan_classids s, scan_counts s, numclasses s) of
                              Inl e \<Rightarrow> Inl e
                            | Inr (cl, cnt, nc) \<Rightarrow>
                                (case remember False utterance
                                        (s\<lparr>scan_classids := cl @ [boundarymarker P],
                                           scan_counts := cnt, numclasses := nc\<rparr>) of
                                   Inl e \<Rightarrow> Inl e
                                 | Inr s' \<Rightarrow> Inr (s', [])))))"

fun scanfiles :: "platform \<Rightarrow> (string \<times> htkmlfentry list) list \<Rightarrow> latticesource \<Rightarrow> nat
    \<Rightarrow> nat \<Rightarrow> parsedpath list \<Rightarrow> scan \<Rightarrow> exn + scan \<times> diagnostic list" where
  "scanfiles P labels lat udim i [] s = Inr (s, [])"
| "scanfiles P labels lat udim i (f # fs) s =
     (case scanfile P labels lat udim i f s of
        Inl e \<Rightarrow> Inl e
      | Inr (s', d) \<Rightarrow>
          (case scanfiles P labels lat udim (Suc i) fs s' of
             Inl e \<Rightarrow> Inl e
           | Inr (s'', d') \<Rightarrow> Inr (s'', d @ d')))"

text \<open>The check of the boundary markers after the scan.\<close>

fun checkmarkers :: "platform \<Rightarrow> nat list \<Rightarrow> utterancedesc list \<Rightarrow> exn + unit" where
  "checkmarkers P cl [] = Inr ()"
| "checkmarkers P cl (u # us) =
     (if classidsbegin u + uttnumframes u \<ge> length cl
      then Inl (undefined_behaviour ''classids[classidsbegin + numframes]'')
      else if cl ! (classidsbegin u + uttnumframes u) \<noteq> boundarymarker P
      then Inl (logic_error ''minibatchutterancesource: classids[] out of sync'')
      else checkmarkers P cl us)"

text \<open>Distributing the utterances over chunks of about 15 minutes.\<close>

definition chunkframes :: nat where
  "chunkframes = 15 * 60 * 100"

fun distribute :: "platform \<Rightarrow> utterancedesc list \<Rightarrow> utterancechunkdata list
    \<Rightarrow> exn + utterancechunkdata list" where
  "distribute P [] chunks = Inr chunks"
| "distribute P (utt # utts) chunks =
     (let chunks1 = (if chunks = [] \<or> totalframes (last chunks) > chunkframes
                        \<or> numutterances (last chunks) \<ge> maxutterancesperchunk P
                     then chunks @ [virginchunk] else chunks)
      in case push_back utt (last chunks1) of
           Inl e \<Rightarrow> Inl e
         | Inr c \<Rightarrow> distribute P utts (butlast chunks1 @ [c]))"

text \<open>
  The constructor: the source object and the messages, or the exception thrown. The
  context sizes are not used by the modelled functions and are left out.
\<close>

definition minibatchutterancesource :: "platform \<Rightarrow> parsedpath list \<Rightarrow> (string \<times> htkmlfentry list) list
    \<Rightarrow> nat \<Rightarrow> nat \<Rightarrow> nat \<Rightarrow> latticesource \<Rightarrow> (string \<times> nat list) list \<Rightarrow> bool
    \<Rightarrow> exn + source \<times> diagnostic list" where
  "minibatchutterancesource P infiles labels vd udim rrange lat wordtranscripts fmode =
     (case scanfiles P labels lat udim 0 infiles scan_start of
        Inl e \<Rightarrow> Inl e
      | Inr (s, d) \<Rightarrow>
          (case (if labels \<noteq> [] then checkmarkers P (scan_classids s) (scan_utteranceset s) else Inr ()) of
             Inl e \<Rightarrow> Inl e
           | Inr _ \<Rightarrow>
               if nomlf s + nolat s > 0 \<and> nomlf s + nolat s > length infiles div 2
               then Inl (runtime_error ''minibatchutterancesource: too many files not found in label set--assuming broken configuration'')
               else
                 (case distribute P (scan_utteranceset s) [] of
                    Inl e \<Rightarrow> Inl e
                  | Inr chunks \<Rightarrow>
                      Inr (\<lparr>vdim = vd, featdim = 0, framemode = fmode, counts = scan_counts s,
                            latticesource_empty = lattices_empty lat,
                            allwordtranscripts = wordtranscripts,
                            allchunks = chunks, classids = scan_classids s,
                            corpus_numutterances = length (scan_utteranceset s),
                            corpus_totalframes = scan_totalframes s,
                            randomizationrange = rrange, currentsweep = SIZE_MAX P,
                            randomizedchunks = [], chunksinram = 0,
                            randomizedutterancerefs = [], randomizedutteranceposmap = Map.empty,
                            positionchunkwindows = [],
                            randomizedframerefs =
                              (if fmode
                               then vector_resize (scan_totalframes s)
                                      \<lparr>fr_chunkindex = 0, fr_utteranceindex = 0, fr_frameindex = 0\<rparr> []
                               else []),
                            ioclock = 0\<rparr>, d))))"

subsection \<open>A small corpus\<close>

text \<open>
  The corpus of the scenarios: three utterances of 100, 150 and 80 frames, which form
  one chunk, without labels and lattices, on a 64-bit build. The generator of this
  platform answers its \<open>n\<close>-th call with \<open>n\<close>.
\<close>

definition example_platform :: platform where
  "example_platform = \<lparr>WIN64 = True, RAND_MAX = 32767, CLASSIDTYPE_bits = 16,
                         rawrand = (\<lambda>seed n. n)\<rparr>"

definition no_latticesource :: latticesource where
  "no_latticesource = \<lparr>lattices_empty = True, haslattice = (\<lambda>k. False)\<rparr>"

definition example_infiles :: "parsedpath list" where
  "example_infiles = [\<lparr>logicalkey = ''a'', framebounds = Some 100\<rparr>,
                      \<lparr>logicalkey = ''b'', framebounds = Some 150\<rparr>,
                      \<lparr>logicalkey = ''c'', framebounds = Some 80\<rparr>]"

definition example_chunk :: utterancechunkdata where
  "example_chunk =
     \<lparr>utteranceset = [\<lparr>key = ''a'', uttnumframes = 100, classidsbegin = 0\<rparr>,
                      \<lparr>key = ''b'', uttnumframes = 150, classidsbegin = 0\<rparr>,
                      \<lparr>key = ''c'', uttnumframes = 80, classidsbegin = 0\<rparr>],
      firstframes = [0, 100, 250], frames = matrix_resize 0 0, totalframes = 330,
      lattices = []\<rparr>"

text \<open>A world in which every read succeeds, and one in which the second utterance cannot be read.\<close>

definition world_ok :: "nat \<Rightarrow> loadenv" where
  "world_ok = (\<lambda>tick. \<lparr>getinfo = Inr 39, resize_fault = None, read_fault = (\<lambda>i. None),
                        getlattices_fault = (\<lambda>i. None)\<rparr>)"

definition world_readfails :: "nat \<Rightarrow> loadenv" where
  "world_readfails = (\<lambda>tick. \<lparr>getinfo = Inr 39, resize_fault = None,
       read_fault = (\<lambda>i. if i = 1 then Some (runtime_error ''htkfeatreader: read failed'') else None),
       getlattices_fault = (\<lambda>i. None)\<rparr>)"

text \<open>
  A world in which that read fails during the first two calls of \<^verbatim>\<open>requiredata\<close> and
  succeeds from the third call on.
\<close>

definition world_flaky :: "nat \<Rightarrow> loadenv" where
  "world_flaky = (\<lambda>tick. if tick < 2 then world_readfails tick else world_ok tick)"

text \<open>
  Two answers of the outside world to one call of \<^verbatim>\<open>requiredata\<close>: the first feature
  file announces the feature dimension 0; the first feature file cannot be opened.
\<close>

definition env_zerodim :: loadenv where
  "env_zerodim = \<lparr>getinfo = Inr 0, resize_fault = None, read_fault = (\<lambda>i. None),
                    getlattices_fault = (\<lambda>i. None)\<rparr>"

definition env_unreadable :: loadenv where
  "env_unreadable = \<lparr>getinfo = Inl (runtime_error ''htkfeatreader: cannot open file''),
                       resize_fault = None, read_fault = (\<lambda>i. None),
                       getlattices_fault = (\<lambda>i. None)\<rparr>"

text \<open>The source object built from the corpus, in utterance mode, and after its first randomization.\<close>

definition example_source :: source where
  "example_source =
     \<lparr>vdim = 39, featdim = 0, framemode = False, counts = [], latticesource_empty = True,
      allwordtranscripts = [], allchunks = [example_chunk], classids = [],
      corpus_numutterances = 3, corpus_totalframes = 330, randomizationrange = 1000000,
      currentsweep = SIZE_MAX example_platform, randomizedchunks = [], chunksinram = 0,
      randomizedutterancerefs = [], randomizedutteranceposmap = Map.empty,
      positionchunkwindows = [], randomizedframerefs = [], ioclock = 0\<rparr>"

definition example_chunks :: "chunk list" where
  "example_chunks = [\<lparr>uttchunkdata = 0, utteranceposbegin = 0, chunk_globalts = 0,
                       windowbegin = 0, windowend = 1\<rparr>]"

definition example_utterancerefs :: "utteranceref list" where
  "example_utterancerefs =
     [\<lparr>chunkindex = 0, utteranceindex = 0, numframes = 100, globalts = 0\<rparr>,
      \<lparr>chunkindex = 0, utteranceindex = 1, numframes = 150, globalts = 100\<rparr>,
      \<lparr>chunkindex = 0, utteranceindex = 2, numframes = 80, globalts = 250\<rparr>]"

definition example_randomized :: source where
  "example_randomized =
     example_source\<lparr>currentsweep := 0, randomizedchunks := example_chunks,
                    positionchunkwindows := [0, 0, 0],
                    randomizedutterancerefs := example_utterancerefs,
                    randomizedutteranceposmap := [0 \<mapsto> 0, 100 \<mapsto> 1, 250 \<mapsto> 2]\<rparr>"

text \<open>The same object after the randomization for the second sweep, which starts at time 330.\<close>

definition example_chunks1 :: "chunk list" where
  "example_chunks1 = [\<lparr>uttchunkdata = 0, utteranceposbegin = 0, chunk_globalts = 330,
                        windowbegin = 0, windowend = 1\<rparr>]"

definition example_utterancerefs1 :: "utteranceref list" where
  "example_utterancerefs1 =
     [\<lparr>chunkindex = 0, utteranceindex = 0, numframes = 100, globalts = 330\<rparr>,
      \<lparr>chunkindex = 0, utteranceindex = 1, numframes = 150, globalts = 430\<rparr>,
      \<lparr>chunkindex = 0, utteranceindex = 2, numframes = 80, globalts = 580\<rparr>]"

definition example_randomized1 :: source where
  "example_randomized1 =
     example_source\<lparr>currentsweep := 1, randomizedchunks := example_chunks1,
                    positionchunkwindows := [0, 0, 0],
                    randomizedutterancerefs := example_utterancerefs1,
                    randomizedutteranceposmap := [330 \<mapsto> 0, 430 \<mapsto> 1, 580 \<mapsto> 2]\<rparr>"

text \<open>
  And after the randomization for the last sweep of the 64-bit timeline, number
  55899224465786520, which starts 16 frames before the timeline wraps around.
\<close>

definition example_chunks_last :: "chunk list" where
  "example_chunks_last = [\<lparr>uttchunkdata = 0, utteranceposbegin = 0,
                            chunk_globalts = 18446744073709551600,
                            windowbegin = 0, windowend = 1\<rparr>]"

definition example_utterancerefs_last :: "utteranceref list" where
  "example_utterancerefs_last =
     [\<lparr>chunkindex = 0, utteranceindex = 0, numframes = 100, globalts = 18446744073709551600\<rparr>,
      \<lparr>chunkindex = 0, utteranceindex = 1, numframes = 150, globalts = 84\<rparr>,
      \<lparr>chunkindex = 0, utteranceindex = 2, numframes = 80, globalts = 234\<rparr>]"

definition example_randomized_last :: source where
  "example_randomized_last =
     example_source\<lparr>currentsweep := 55899224465786520, randomizedchunks := example_chunks_last,
                    positionchunkwindows := [0, 0, 0],
                    randomizedutterancerefs := example_utterancerefs_last,
                    randomizedutteranceposmap :=
                      [18446744073709551600 \<mapsto> 0, 84 \<mapsto> 1, 234 \<mapsto> 2]\<rparr>"

definition example_loaded :: source where
  "example_loaded =
     example_randomized\<lparr>allchunks := [example_chunk\<lparr>frames := matrix_resize 39 330\<rparr>],
                        featdim := 39, chunksinram := 1, ioclock := 1\<rparr>"

definition example_batch :: batch where
  "example_batch = \<lparr>feat = matrix_resize 39 100, uids = [], transcripts = [], latticepairs = [],
                      positions = (0, 1), readfromdisk = True\<rparr>"

definition example_initrefs :: "utteranceref list" where
  "example_initrefs = [new_utteranceref example_platform 0 0, new_utteranceref example_platform 0 1,
                       new_utteranceref example_platform 0 2]"

subsection \<open>A small corpus in frame mode\<close>

text \<open>
  Two chunks of one utterance each, of 2 and 3 frames, with a randomization range of 8
  frames; the generator of this platform answers its \<open>n\<close>-th call with \<open>n + 1\<close>.
\<close>

definition frame_platform :: platform where
  "frame_platform = \<lparr>WIN64 = True, RAND_MAX = 32767, CLASSIDTYPE_bits = 16,
                       rawrand = (\<lambda>seed n. Suc n)\<rparr>"

definition frame_chunks :: "utterancechunkdata list" where
  "frame_chunks =
     [\<lparr>utteranceset = [\<lparr>key = ''a'', uttnumframes = 2, classidsbegin = 0\<rparr>],
       firstframes = [0], frames = matrix_resize 0 0, totalframes = 2, lattices = []\<rparr>,
      \<lparr>utteranceset = [\<lparr>key = ''b'', uttnumframes = 3, classidsbegin = 0\<rparr>],
       firstframes = [0], frames = matrix_resize 0 0, totalframes = 3, lattices = []\<rparr>]"

definition frame_source :: source where
  "frame_source =
     \<lparr>vdim = 39, featdim = 0, framemode = True, counts = [], latticesource_empty = True,
      allwordtranscripts = [], allchunks = frame_chunks, classids = [],
      corpus_numutterances = 2, corpus_totalframes = 5, randomizationrange = 8,
      currentsweep = SIZE_MAX frame_platform, randomizedchunks = [], chunksinram = 0,
      randomizedutterancerefs = [], randomizedutteranceposmap = Map.empty,
      positionchunkwindows = [],
      randomizedframerefs = replicate 5 \<lparr>fr_chunkindex = 0, fr_utteranceindex = 0, fr_frameindex = 0\<rparr>,
      ioclock = 0\<rparr>"
section \<open>Facts\<close>

subsection \<open>Paging: facts\<close>

lemma releasedata_not_isinram:
  "releasedata c = Inr c' \<Longrightarrow> \<not> isinram c'"
  by (auto simp: releasedata_def isinram_def matrix_empty_def matrix_resize_def split: if_splits)

lemma releasedata_fails:
  "releasedata c = Inl e \<Longrightarrow> numutterances c = 0 \<or> \<not> isinram c"
  by (auto simp: releasedata_def split: if_splits)

lemma readutterances_utteranceset:
  "readutterances env le is c = (r, c') \<Longrightarrow> utteranceset c' = utteranceset c"
  by (induction env le "is" c rule: readutterances.induct)
     (auto split: if_splits option.splits)

lemma readutterances_frames:
  "readutterances env le is c = (r, c') \<Longrightarrow> frames c' = frames c"
  by (induction env le "is" c rule: readutterances.induct)
     (auto split: if_splits option.splits)

lemma readutterances_ok_isinram:
  "readutterances env le is c = (None, c') \<Longrightarrow> is \<noteq> [] \<Longrightarrow> isinram c"
  by (cases "is") (auto split: if_splits)

lemma readutterances_rest:
  "readutterances env le is c = (r, c') \<Longrightarrow>
     firstframes c' = firstframes c \<and> totalframes c' = totalframes c"
  by (induction env le "is" c rule: readutterances.induct)
     (auto split: if_splits option.splits)

lemma requiredata_try_utteranceset:
  "requiredata_try env le fd c = (r, c', fd') \<Longrightarrow> utteranceset c' = utteranceset c"
  by (auto simp: requiredata_try_def Let_def split: sum.splits option.splits prod.splits if_splits
           dest: readutterances_utteranceset)

lemma requiredata_ok_isinram:
  assumes "requiredata env le fd c = (None, c', fd')"
  shows "isinram c'"
proof -
  from assms have n0: "numutterances c \<noteq> 0"
    and t: "requiredata_try env le fd c = (None, c', fd')"
    by (auto simp: requiredata_def split: if_splits prod.splits option.splits sum.splits)
  from n0 have ne: "[0..<length (utteranceset c)] \<noteq> []"
    by (simp add: numutterances_def)
  from t obtain c2 where r: "readutterances env le [0..<length (utteranceset c)] c2 = (None, c')"
    by (auto simp: requiredata_try_def Let_def split: sum.splits option.splits prod.splits if_splits)
  from readutterances_ok_isinram [OF r ne] readutterances_frames [OF r]
  show ?thesis by (simp add: isinram_def)
qed

lemma requiredata_fails_not_isinram:
  assumes "\<not> isinram c"
    and "requiredata env latempty fd c = (Some e, c', fd')"
  shows "\<not> isinram c'"
proof (cases "numutterances c = 0")
  case True
  with assms show ?thesis by (simp add: requiredata_def)
next
  case False
  obtain r c1 fd1 where t: "requiredata_try env latempty fd c = (r, c1, fd1)"
    by (cases "requiredata_try env latempty fd c") auto
  have n1: "numutterances c1 \<noteq> 0"
    using False requiredata_try_utteranceset [OF t] by (simp add: numutterances_def)
  show ?thesis
  proof (cases "releasedata c1")
    case (Inl e')
    have "\<not> isinram c1" using releasedata_fails [OF Inl] n1 by simp
    with assms False t Inl show ?thesis
      by (auto simp: requiredata_def split: option.splits)
  next
    case (Inr c'')
    have "\<not> isinram c''" using releasedata_not_isinram [OF Inr] .
    with assms False t Inr show ?thesis
      by (auto simp: requiredata_def split: option.splits)
  qed
qed


lemma requiredata_fails_released:
  assumes "\<not> isinram c"
    and "requiredata env latempty fd c = (Some e, c', fd')"
    and "isinram (c\<lparr>frames := matrix_resize fd' (totalframes c)\<rparr>)"
  shows "c' = c \<or> c' = c\<lparr>frames := matrix_resize 0 0, lattices := []\<rparr>"
proof (cases "numutterances c = 0")
  case True
  with assms show ?thesis by (simp add: requiredata_def)
next
  case n0: False
  obtain r c1 fd1 where t: "requiredata_try env latempty fd c = (r, c1, fd1)"
    by (cases "requiredata_try env latempty fd c") auto
  from assms(1,2) n0 t obtain e1 where r: "r = Some e1" and fd1: "fd1 = fd'"
    and rel: "(case releasedata c1 of Inl e' \<Rightarrow> c' = c1 | Inr c'' \<Rightarrow> c' = c'')"
    by (cases r; cases "releasedata c1") (auto simp: requiredata_def)
  show ?thesis
  proof (cases "c1 = c")
    case True
    with assms(1) n0 rel show ?thesis
      by (simp add: releasedata_def)
  next
    case False
    with t r fd1 obtain c2 where
      ru: "readutterances env latempty [0..<length (utteranceset c)] c2 = (Some e1, c1)"
      and c2: "frames c2 = matrix_resize fd' (totalframes c)" "utteranceset c2 = utteranceset c"
        "firstframes c2 = firstframes c" "totalframes c2 = totalframes c"
      by (auto simp: requiredata_try_def Let_def
               split: sum.splits option.splits prod.splits if_splits)
    from readutterances_frames [OF ru] readutterances_utteranceset [OF ru]
      readutterances_rest [OF ru] c2
    have c1: "frames c1 = matrix_resize fd' (totalframes c)" "utteranceset c1 = utteranceset c"
      "firstframes c1 = firstframes c" "totalframes c1 = totalframes c"
      by simp_all
    with assms(3) have "isinram c1" by (simp add: isinram_def)
    with n0 c1 rel have "c' = c1\<lparr>frames := matrix_resize 0 0, lattices := []\<rparr>"
      by (simp add: releasedata_def numutterances_def)
    with c1 show ?thesis by simp
  qed
qed

text \<open>
  C10. \<^verbatim>\<open>requiredata\<close> is meant not to return in a broken state: its handler calls
  \<^verbatim>\<open>releasedata\<close> and rethrows. But \<^verbatim>\<open>releasedata\<close> throws when the frame buffer is
  empty, so a load that fails while the buffer is empty releases nothing and the
  \<^verbatim>\<open>logic_error\<close> of \<^verbatim>\<open>releasedata\<close> takes the place of the exception that occurred.
  With a lattice source and a feature file that announces the feature dimension 0, the
  buffer is resized to no element, the lattice vector to one entry for each utterance, the
  first \<^verbatim>\<open>getutteranceframes\<close> throws, and the chunk is left with its three null lattice
  pointers: not resident, but partially loaded. When \<^verbatim>\<open>getinfo\<close> itself fails, the
  chunk is left as it was and the I/O error is lost.
\<close>

theorem requiredata_failure_leaves_lattices:
  "requiredata env_zerodim False 0 example_chunk
     = (Some (logic_error ''releasedata: called when data is not memory''),
        example_chunk\<lparr>frames := matrix_resize 0 330, lattices := [None, None, None]\<rparr>, 0)
   \<and> \<not> isinram (example_chunk\<lparr>frames := matrix_resize 0 330, lattices := [None, None, None]\<rparr>)
   \<and> requiredata env_unreadable False 0 example_chunk
     = (Some (logic_error ''releasedata: called when data is not memory''), example_chunk, 0)"
  by (simp add: requiredata_def requiredata_try_def releasedata_def numutterances_def
      example_chunk_def env_zerodim_def env_unreadable_def isinram_def matrix_empty_def
      matrix_resize_def vector_resize_def
      upt_rec [of 0] upt_rec [of 1] upt_rec [of 2] upt_rec [of 3])
subsection \<open>Paging randomized chunks: facts\<close>

lemma requiredata_call_ioclock:
  "requiredata_call io ci st = (r, st') \<Longrightarrow> ioclock st' = Suc (ioclock st)"
  by (auto simp: requiredata_call_def split: prod.splits)

lemma requiredata_call_frame:
  "requiredata_call io ci st = (r, st') \<Longrightarrow>
     length (allchunks st') = length (allchunks st) \<and> randomizedchunks st' = randomizedchunks st"
  by (auto simp: requiredata_call_def split: prod.splits)

lemma requiredata_call_ok:
  "requiredata_call io ci st = (None, st') \<Longrightarrow> ci < length (allchunks st) \<Longrightarrow>
     isinram (allchunks st' ! ci)"
  by (auto simp: requiredata_call_def split: prod.splits dest: requiredata_ok_isinram)

lemma requiredata_call_fails:
  assumes "requiredata_call io ci st = (Some e, st')"
    and "ci < length (allchunks st)" and "\<not> isinram (allchunks st ! ci)"
  shows "\<not> isinram (allchunks st' ! ci)"
proof -
  from assms(1) obtain c' fd' where
    r: "requiredata (io (ioclock st)) (latticesource_empty st) (featdim st) (allchunks st ! ci) = (Some e, c', fd')"
    and st': "allchunks st' = (allchunks st)[ci := c']"
    by (auto simp: requiredata_call_def split: prod.splits)
  have "\<not> isinram c'"
    using assms(3) r by (rule requiredata_fails_not_isinram)
  with st' assms(2) show ?thesis by simp
qed

text \<open>
  Five attempts: a run that ends well has made between one and \<open>n + 1\<close> calls and the
  chunk is resident; a run that fails has made all \<open>n + 1\<close> calls and the chunk is not.
\<close>

lemma attempt_requiredata_call:
  assumes "attempt (Suc n) (requiredata_call io ci) st = (r, st')"
    and "ci < length (allchunks st)" and "\<not> isinram (allchunks st ! ci)"
  shows "(r = None \<longrightarrow> isinram (allchunks st' ! ci) \<and> ioclock st < ioclock st'
                        \<and> ioclock st' \<le> ioclock st + Suc n)
       \<and> (r \<noteq> None \<longrightarrow> \<not> isinram (allchunks st' ! ci) \<and> ioclock st' = ioclock st + Suc n)
       \<and> randomizedchunks st' = randomizedchunks st"
  using assms
proof (induction n arbitrary: st)
  case 0
  obtain r1 st1 where b: "requiredata_call io ci st = (r1, st1)"
    by (cases "requiredata_call io ci st") auto
  note clk = requiredata_call_ioclock [OF b] and frm = requiredata_call_frame [OF b]
  from "0.prems"(1) b have eq: "r = r1" "st' = st1"
    by (cases r1; simp)+
  show ?case
  proof (cases r1)
    case None
    with b have "isinram (allchunks st1 ! ci)"
      using requiredata_call_ok [of io ci st st1] "0.prems"(2) by simp
    with None eq clk frm show ?thesis by simp
  next
    case (Some e)
    with b have "\<not> isinram (allchunks st1 ! ci)"
      using requiredata_call_fails [of io ci st e st1] "0.prems"(2,3) by simp
    with Some eq clk frm show ?thesis by simp
  qed
next
  case (Suc n)
  obtain r1 st1 where b: "requiredata_call io ci st = (r1, st1)"
    by (cases "requiredata_call io ci st") auto
  note clk = requiredata_call_ioclock [OF b] and frm = requiredata_call_frame [OF b]
  show ?case
  proof (cases r1)
    case None
    with b Suc.prems(1) have eq: "r = None" "st' = st1" by simp_all
    have "isinram (allchunks st1 ! ci)"
      using requiredata_call_ok [of io ci st st1] b None Suc.prems(2) by simp
    with eq clk frm show ?thesis by simp
  next
    case (Some e)
    with b Suc.prems(1) have rest: "attempt (Suc n) (requiredata_call io ci) st1 = (r, st')"
      by simp
    have l: "ci < length (allchunks st1)" using frm Suc.prems(2) by simp
    have nr: "\<not> isinram (allchunks st1 ! ci)"
      using requiredata_call_fails [of io ci st e st1] b Some Suc.prems(2,3) by simp
    from Suc.IH [OF rest l nr] clk frm show ?thesis by auto
  qed
qed

lemma attempt_numeral:
  "attempt (numeral k) body s =
     (case body s of
        (None, s') \<Rightarrow> (None, s')
      | (Some e, s') \<Rightarrow> if pred_numeral k = 0 then (Some e, s') else attempt (pred_numeral k) body s')"
  by (simp add: numeral_eq_Suc)

lemma runs_Suc_right: "runs (Suc m) body s = snd (body (runs m body s))"
  by (induction m arbitrary: s) simp_all

lemma attempt_first_success:
  assumes "\<forall>m<n. fst (body (runs m body s)) \<noteq> None"
    and "fst (body (runs n body s)) = None" and "n < N"
  shows "attempt N body s = (None, runs (Suc n) body s)"
  using assms
proof (induction N arbitrary: n s)
  case 0
  then show ?case by simp
next
  case (Suc N)
  show ?case
  proof (cases n)
    case 0
    with Suc.prems(2) show ?thesis
      by (cases "body s") simp
  next
    case (Suc n')
    with Suc.prems(1) have f0: "fst (body s) \<noteq> None" by force
    then obtain e s1 where b: "body s = (Some e, s1)" by (cases "body s") auto
    from Suc Suc.prems(3) have N0: "N \<noteq> 0" and n'N: "n' < N" by simp_all
    have p1: "\<forall>m<n'. fst (body (runs m body s1)) \<noteq> None"
    proof (intro allI impI)
      fix m assume "m < n'"
      with Suc have "Suc m < n" by simp
      with Suc.prems(1) have "fst (body (runs (Suc m) body s)) \<noteq> None" by blast
      with b show "fst (body (runs m body s1)) \<noteq> None" by simp
    qed
    have p2: "fst (body (runs n' body s1)) = None"
      using Suc.prems(2) Suc b by simp
    from Suc.IH [OF p1 p2 n'N] b N0 Suc show ?thesis by simp
  qed
qed

lemma attempt_all_fail:
  assumes "\<forall>m<Suc N. fst (body (runs m body s)) \<noteq> None"
  shows "attempt (Suc N) body s = (fst (body (runs N body s)), runs (Suc N) body s)"
  using assms
proof (induction N arbitrary: s)
  case 0
  then have "fst (body s) \<noteq> None" by simp
  then obtain e s1 where b: "body s = (Some e, s1)" by (cases "body s") auto
  then show ?case by simp
next
  case (Suc N)
  from Suc.prems have "fst (body (runs 0 body s)) \<noteq> None" by blast
  then obtain e s1 where b: "body s = (Some e, s1)" by (cases "body s") auto
  have p: "\<forall>m<Suc N. fst (body (runs m body s1)) \<noteq> None"
  proof (intro allI impI)
    fix m assume "m < Suc N"
    then have "Suc m < Suc (Suc N)" by simp
    with Suc.prems have "fst (body (runs (Suc m) body s)) \<noteq> None" by blast
    with b show "fst (body (runs m body s1)) \<noteq> None" by simp
  qed
  from Suc.IH [OF p] b show ?case by simp
qed

lemma runs_requiredata_call:
  "ioclock (runs m (requiredata_call io ci) st) = ioclock st + m \<and>
   chunksinram (runs m (requiredata_call io ci) st) = chunksinram st \<and>
   randomizedchunks (runs m (requiredata_call io ci) st) = randomizedchunks st \<and>
   length (allchunks (runs m (requiredata_call io ci) st)) = length (allchunks st)"
proof (induction m arbitrary: st)
  case 0
  then show ?case by simp
next
  case (Suc m)
  obtain r st1 where b: "requiredata_call io ci st = (r, st1)"
    by (cases "requiredata_call io ci st") auto
  then have "ioclock st1 = Suc (ioclock st)" "chunksinram st1 = chunksinram st"
    "randomizedchunks st1 = randomizedchunks st" "length (allchunks st1) = length (allchunks st)"
    by (auto simp: requiredata_call_def split: prod.splits)
  with Suc [of st1] b show ?case by simp
qed

subsection \<open>The constructor: facts\<close>

lemma maxframesperutterance_ge: "2 \<le> maxframesperutterance P"
  by (simp add: maxframesperutterance_def)

lemma scanfile_skips:
  assumes "framebounds big = Some n" and "n > maxframesperutterance P"
  shows "scanfile P labels lat udim i big s = Inr (s, [skipping_file i n])"
proof -
  from assms(2) maxframesperutterance_ge [of P] have "\<not> n < 2" by simp
  with assms show ?thesis by (simp add: scanfile_def)
qed

lemma scanfile_index:
  "map_sum id fst (scanfile P labels lat udim i f s) = map_sum id fst (scanfile P labels lat udim j f s)"
  by (simp add: scanfile_def Let_def split: option.splits sum.splits prod.splits)

lemma scanfiles_index:
  "map_sum id fst (scanfiles P labels lat udim i fs s) = map_sum id fst (scanfiles P labels lat udim j fs s)"
proof (induction fs arbitrary: i j s)
  case Nil
  show ?case by simp
next
  case (Cons f fs)
  show ?case
  proof (cases "scanfile P labels lat udim i f s")
    case (Inl e)
    with scanfile_index [of P labels lat udim i f s j] show ?thesis
      by (cases "scanfile P labels lat udim j f s") auto
  next
    case (Inr r)
    obtain s' d where r: "r = (s', d)" by (cases r)
    with Inr scanfile_index [of P labels lat udim i f s j]
    obtain d2 where j: "scanfile P labels lat udim j f s = Inr (s', d2)"
      by (cases "scanfile P labels lat udim j f s") auto
    from Cons.IH [of "Suc i" s' "Suc j"] Inr r j show ?thesis
      by (auto split: sum.splits)
  qed
qed

lemma scanfiles_append:
  "scanfiles P labels lat udim i (xs @ ys) s =
     (case scanfiles P labels lat udim i xs s of
        Inl e \<Rightarrow> Inl e
      | Inr (s', d) \<Rightarrow>
          (case scanfiles P labels lat udim (i + length xs) ys s' of
             Inl e \<Rightarrow> Inl e
           | Inr (s'', d') \<Rightarrow> Inr (s'', d @ d')))"
  by (induction xs arbitrary: i s) (auto split: sum.splits prod.splits)

lemma scanfiles_skip:
  assumes "framebounds big = Some n" and "n > maxframesperutterance P"
    and "scanfiles P labels lat udim 0 (xs @ ys) scan_start = Inr (s, d)"
  shows "\<exists>d'. scanfiles P labels lat udim 0 (xs @ big # ys) scan_start = Inr (s, d')
              \<and> skipping_file (length xs) n \<in> set d'"
proof -
  from assms(3) obtain s1 d1 d2 where
    x: "scanfiles P labels lat udim 0 xs scan_start = Inr (s1, d1)"
    and y: "scanfiles P labels lat udim (length xs) ys s1 = Inr (s, d2)"
    by (auto simp: scanfiles_append split: sum.splits prod.splits)
  from y scanfiles_index [of P labels lat udim "length xs" ys s1 "Suc (length xs)"]
  obtain d3 where y': "scanfiles P labels lat udim (Suc (length xs)) ys s1 = Inr (s, d3)"
    by (cases "scanfiles P labels lat udim (Suc (length xs)) ys s1") auto
  have "scanfiles P labels lat udim 0 (xs @ big # ys) scan_start
          = Inr (s, d1 @ [skipping_file (length xs) n] @ d3)"
    using x y' scanfile_skips [OF assms(1,2)] by (simp add: scanfiles_append)
  then show ?thesis by auto
qed

lemma example_source_constructed:
  "minibatchutterancesource example_platform example_infiles [] 39 udim 1000000 no_latticesource [] False
     = Inr (example_source, [])"
  by (simp add: minibatchutterancesource_def example_infiles_def scanfile_def remember_def
        scan_start_def example_platform_def maxframesperutterance_def maxutterancesperchunk_def
        no_latticesource_def push_back_def virginchunk_def isinram_def matrix_empty_def
        matrix_resize_def chunkframes_def numutterances_def example_source_def example_chunk_def
        SIZE_MAX_def)

text \<open>
  C9. An entry of \<^verbatim>\<open>infiles\<close> with more frames than \<^verbatim>\<open>maxframesperutterance\<close> is
  skipped: its iteration of the scan loop leaves every loop variable as it was and only
  writes the message; and whenever the constructor succeeds on a file list, it succeeds
  on the list with such an entry inserted anywhere, with the same object (the same
  chunks, labels and totals) and with the message among the diagnostics.
\<close>

theorem toolong_utterance_skipped:
  assumes "framebounds big = Some n" and "n > maxframesperutterance P"
    and "minibatchutterancesource P (xs @ ys) labels vd udim rr lat wt fm = Inr (src, d)"
  shows "scanfile P labels lat udim i big s = Inr (s, [skipping_file i n])
       \<and> (\<exists>d'. minibatchutterancesource P (xs @ big # ys) labels vd udim rr lat wt fm = Inr (src, d')
                 \<and> skipping_file (length xs) n \<in> set d')"
proof
  show "scanfile P labels lat udim i big s = Inr (s, [skipping_file i n])"
    using assms(1,2) by (rule scanfile_skips)
next
  from assms(3) obtain sc where
    sc: "scanfiles P labels lat udim 0 (xs @ ys) scan_start = Inr (sc, d)"
    by (auto simp: minibatchutterancesource_def split: sum.splits prod.splits if_splits)
  from scanfiles_skip [OF assms(1,2) sc] obtain d' where
    sc': "scanfiles P labels lat udim 0 (xs @ big # ys) scan_start = Inr (sc, d')"
    and d': "skipping_file (length xs) n \<in> set d'"
    by blast
  have le: "length (xs @ ys) div 2 \<le> length (xs @ big # ys) div 2"
    by (simp add: div_le_mono)
  from assms(3) sc have thr: "\<not> (nomlf sc + nolat sc > 0 \<and> nomlf sc + nolat sc > length (xs @ ys) div 2)"
    by (auto simp: minibatchutterancesource_def split: sum.splits prod.splits if_splits)
  with le have thr': "\<not> (nomlf sc + nolat sc > 0 \<and> nomlf sc + nolat sc > length (xs @ big # ys) div 2)"
    by linarith
  from assms(3) sc sc' thr thr'
  have "minibatchutterancesource P (xs @ big # ys) labels vd udim rr lat wt fm = Inr (src, d')"
    unfolding minibatchutterancesource_def
    by (simp split: sum.splits prod.splits if_splits)
  with d' show "\<exists>d'. minibatchutterancesource P (xs @ big # ys) labels vd udim rr lat wt fm = Inr (src, d')
                 \<and> skipping_file (length xs) n \<in> set d'"
    by blast
qed

theorem toolong_utterance_skipped_witness:
  "framebounds \<lparr>logicalkey = ''long'', framebounds = Some 70000\<rparr> = Some 70000
   \<and> 70000 > maxframesperutterance example_platform
   \<and> minibatchutterancesource example_platform (take 1 example_infiles @ drop 1 example_infiles)
         [] 39 10 1000000 no_latticesource [] False = Inr (example_source, [])
   \<and> scanfile example_platform [] no_latticesource 10 1
         \<lparr>logicalkey = ''long'', framebounds = Some 70000\<rparr> scan_start
       = Inr (scan_start, [skipping_file 1 70000])
   \<and> (\<exists>d'. minibatchutterancesource example_platform
           (take 1 example_infiles @ \<lparr>logicalkey = ''long'', framebounds = Some 70000\<rparr> # drop 1 example_infiles)
           [] 39 10 1000000 no_latticesource [] False = Inr (example_source, d')
         \<and> skipping_file (length (take 1 example_infiles)) 70000 \<in> set d')"
proof -
  have h1: "framebounds \<lparr>logicalkey = ''long'', framebounds = Some 70000\<rparr> = Some 70000"
    by simp
  have h2: "70000 > maxframesperutterance example_platform"
    by (simp add: maxframesperutterance_def example_platform_def)
  have h3: "minibatchutterancesource example_platform (take 1 example_infiles @ drop 1 example_infiles)
         [] 39 10 1000000 no_latticesource [] False = Inr (example_source, [])"
    using example_source_constructed [of 10] by simp
  from toolong_utterance_skipped [OF h1 h2 h3, where i = 1 and s = scan_start] h1 h2 h3
  show ?thesis by simp
qed

subsection \<open>Loops, the lookup table and the timeline: facts\<close>

lemma size_t_le: "size_t P x \<le> SIZE_MAX P"
proof -
  have "x mod (SIZE_MAX P + 1) < SIZE_MAX P + 1" by simp
  then show ?thesis unfolding size_t_def by arith
qed

lemma size_t_less: "x \<le> SIZE_MAX P \<Longrightarrow> size_t P x = x"
  by (simp add: size_t_def)

lemma size_t_add_left: "size_t P (size_t P a + b) = size_t P (a + b)"
  by (simp add: size_t_def mod_add_left_eq)

lemma size_t_add_right: "size_t P (a + size_t P b) = size_t P (a + b)"
  by (simp add: size_t_def mod_add_right_eq)

lemma size_t_idem: "size_t P (size_t P a) = size_t P a"
  by (simp add: size_t_def)

lemma rand_bounds:
  assumes "rand raw b e = Inr r"
  shows "b \<le> r \<and> r < e"
proof -
  from assms have e: "b < e" and r: "r = b + raw mod (e - b)"
    by (auto simp: rand_def split: if_splits)
  from e have "raw mod (e - b) < e - b" by simp
  with e r show ?thesis by arith
qed

lemma swap_at_length [simp]: "length (swap_at i j v) = length v"
  by (simp add: swap_at_def)

lemma swap_at_set: "i < length v \<Longrightarrow> j < length v \<Longrightarrow> set (swap_at i j v) = set v"
  unfolding swap_at_def by (rule set_swap)

lemma foreach_preserves:
  assumes "foreach is body s = Inr s'" and "Q s"
    and "\<And>i s s'. i \<in> set is \<Longrightarrow> body i s = Inr s' \<Longrightarrow> Q s \<Longrightarrow> Q s'"
  shows "Q s'"
  using assms
proof (induction "is" arbitrary: s)
  case Nil
  then show ?case by simp
next
  case (Cons i rest)
  from Cons.prems(1) obtain s1 where b: "body i s = Inr s1" and r: "foreach rest body s1 = Inr s'"
    by (auto split: sum.splits)
  have q1: "Q s1" using Cons.prems(3) [of i s s1] b Cons.prems(2) by simp
  show ?case
    by (rule Cons.IH [OF r q1]) (use Cons.prems(3) in auto)
qed

lemma fold_posmap_Some:
  "fold (\<lambda>pos m. m(g pos \<mapsto> pos)) ps m0 t = Some p \<Longrightarrow>
     (p \<in> set ps \<and> g p = t) \<or> m0 t = Some p"
proof (induction ps arbitrary: m0)
  case Nil
  then show ?case by simp
next
  case (Cons a ps)
  from Cons.IH [of "m0(g a \<mapsto> a)"] Cons.prems show ?case
    by (auto split: if_splits)
qed

lemma fold_posmap_None:
  "fold (\<lambda>pos m. m(g pos \<mapsto> pos)) ps m0 t = None \<Longrightarrow>
     (\<forall>p \<in> set ps. g p \<noteq> t) \<and> m0 t = None"
proof (induction ps arbitrary: m0)
  case Nil
  then show ?case by simp
next
  case (Cons a ps)
  from Cons.IH [of "m0(g a \<mapsto> a)"] Cons.prems show ?case
    by (auto split: if_splits)
qed

lemma buildposmap_Some:
  assumes "buildposmap refs t = Some p"
  shows "p < length refs \<and> globalts (refs ! p) = t"
  using fold_posmap_Some [of "\<lambda>p. globalts (refs ! p)" "[0..<length refs]" Map.empty t p] assms
  by (simp add: buildposmap_def)

lemma buildposmap_None:
  assumes "buildposmap refs t = None"
  shows "t \<notin> globalts ` set refs"
proof
  assume "t \<in> globalts ` set refs"
  then obtain p where p: "p < length refs" "globalts (refs ! p) = t"
    by (auto simp: in_set_conv_nth)
  from fold_posmap_None [of "\<lambda>p. globalts (refs ! p)" "[0..<length refs]" Map.empty t] assms
  have "\<forall>p \<in> set [0..<length refs]. globalts (refs ! p) \<noteq> t"
    by (simp add: buildposmap_def)
  with p show False by simp
qed

lemma placeutterances_facts:
  assumes "placeutterances P A cs t us = Inr us'" and "t \<le> SIZE_MAX P"
  shows "length us' = length us"
    and "i < length us \<Longrightarrow>
           chunkindex (us' ! i) = chunkindex (us ! i) \<and>
           utteranceindex (us' ! i) = utteranceindex (us ! i) \<and>
           numframes (us' ! i)
             = uttnumframes (utteranceset (A ! uttchunkdata (cs ! chunkindex (us ! i))) ! utteranceindex (us ! i)) \<and>
           globalts (us' ! i) = size_t P (t + sum_list (map numframes (take i us')))"
proof -
  have "length us' = length us \<and>
        (\<forall>i<length us.
           chunkindex (us' ! i) = chunkindex (us ! i) \<and>
           utteranceindex (us' ! i) = utteranceindex (us ! i) \<and>
           numframes (us' ! i)
             = uttnumframes (utteranceset (A ! uttchunkdata (cs ! chunkindex (us ! i))) ! utteranceindex (us ! i)) \<and>
           globalts (us' ! i) = size_t P (t + sum_list (map numframes (take i us'))))"
    using assms
  proof (induction us arbitrary: t us')
    case Nil
    then show ?case by simp
  next
    case (Cons u us)
    let ?n = "uttnumframes (utteranceset (A ! uttchunkdata (cs ! chunkindex u)) ! utteranceindex u)"
    let ?u' = "u\<lparr>globalts := t, numframes := ?n\<rparr>"
    from Cons.prems(1) obtain rest where
      r: "placeutterances P A cs (globalte P ?u') us = Inr rest" and us': "us' = ?u' # rest"
      by (auto simp: Let_def split: if_splits sum.splits)
    have le: "globalte P ?u' \<le> SIZE_MAX P"
      by (simp add: globalte_def size_t_le)
    note ih = Cons.IH [OF r le]
    have g: "size_t P (globalte P ?u' + x) = size_t P (t + (?n + x))" for x
      by (simp add: globalte_def size_t_add_left add.assoc)
    show ?case
    proof (intro conjI allI impI)
      show "length us' = length (u # us)" using ih us' by simp
    next
      fix i assume i: "i < length (u # us)"
      show "chunkindex (us' ! i) = chunkindex ((u # us) ! i)"
        using ih us' i by (cases i) simp_all
      show "utteranceindex (us' ! i) = utteranceindex ((u # us) ! i)"
        using ih us' i by (cases i) simp_all
      show "numframes (us' ! i)
          = uttnumframes (utteranceset (A ! uttchunkdata (cs ! chunkindex ((u # us) ! i))) !
              utteranceindex ((u # us) ! i))"
        using ih us' i by (cases i) simp_all
      show "globalts (us' ! i) = size_t P (t + sum_list (map numframes (take i us')))"
      proof (cases i)
        case 0
        with us' Cons.prems(2) show ?thesis by (simp add: size_t_less)
      next
        case (Suc j)
        with i have "j < length us" by simp
        with ih have "globalts (rest ! j) = size_t P (globalte P ?u' + sum_list (map numframes (take j rest)))"
          by blast
        with Suc us' show ?thesis by (simp add: g)
      qed
    qed
  qed
  then show "length us' = length us"
    and "i < length us \<Longrightarrow>
           chunkindex (us' ! i) = chunkindex (us ! i) \<and>
           utteranceindex (us' ! i) = utteranceindex (us ! i) \<and>
           numframes (us' ! i)
             = uttnumframes (utteranceset (A ! uttchunkdata (cs ! chunkindex (us ! i))) ! utteranceindex (us ! i)) \<and>
           globalts (us' ! i) = size_t P (t + sum_list (map numframes (take i us')))"
    by blast+
qed
subsection \<open>The rebuild: what a successful run consists of\<close>

lemma randomizeutterancemode_Inr:
  assumes "randomizeutterancemode P sweep sweepts st = Some (Inr st')"
  obtains refs1 n refs where
    "randomizeutterances (rawrand P (unsigned_int (unsigned_int sweep + 1))) (allchunks st)
       (randomizedchunks st) (initpositionchunkwindows (allchunks st) (randomizedchunks st))
       [0..<length (initutterancerefs P (allchunks st) (randomizedchunks st))]
       (initutterancerefs P (allchunks st) (randomizedchunks st)) 0 = Some (Inr (refs1, n))"
    and "placeutterances P (allchunks st) (randomizedchunks st) sweepts refs1 = Inr refs"
    and "verifyutterances (randomizedchunks st)
           (initpositionchunkwindows (allchunks st) (randomizedchunks st)) refs = Inr ()"
    and "st' = st\<lparr>positionchunkwindows := initpositionchunkwindows (allchunks st) (randomizedchunks st),
                   randomizedutterancerefs := refs,
                   randomizedutteranceposmap := buildposmap refs\<rparr>"
  using assms
  by (auto simp: randomizeutterancemode_def Let_def split: option.splits sum.splits prod.splits)

lemma randomizeframemode_Inr:
  assumes "randomizeframemode P sweep sweepts st = Some (Inr st')"
  obtains t F0 T F n tend where
    "enumerateframes P (allchunks st) (randomizedchunks st)
       (0, randomizedframerefs st, vector_resize (corpus_totalframes st) 0 []) = Inr (t, F0, T)"
    and "randomizeframes P (rawrand P (unsigned_int (unsigned_int sweep + 1))) (allchunks st)
           (randomizedchunks st) T sweepts [0..<length F0] F0 0 = Some (Inr (F, n))"
    and "checkframes (allchunks st) (randomizedchunks st) F = Inr tend"
    and "st' = st\<lparr>randomizedframerefs := F\<rparr>"
  using assms
  by (auto simp: randomizeframemode_def Let_def split: option.splits sum.splits prod.splits)

lemma rerandomize_Inr:
  assumes "rerandomize P sweep st = Some (Inr st')"
  obtains refs cs where
    "randomshuffle P [0..<length (allchunks st)] sweep = Inr refs"
    and "computewindows P (allchunks st) (randomizationrange st)
           (placechunks P (allchunks st) (size_t P (sweep * corpus_totalframes st)) refs) = Inr cs"
    and "(if framemode st then randomizeframemode P sweep (size_t P (sweep * corpus_totalframes st))
             (st\<lparr>currentsweep := sweep, randomizedchunks := cs\<rparr>)
          else randomizeutterancemode P sweep (size_t P (sweep * corpus_totalframes st))
             (st\<lparr>currentsweep := sweep, randomizedchunks := cs\<rparr>)) = Some (Inr st')"
  using assms
  by (auto simp: rerandomize_def Let_def split: option.splits sum.splits prod.splits if_splits)

lemma lazyrandomization_Inr:
  assumes "lazyrandomization P t st = Some (Inr (sweep, st'))"
  shows "corpus_totalframes st \<noteq> 0 \<and> sweep = t div corpus_totalframes st \<and>
         (if sweep = currentsweep st then st' = st else rerandomize P sweep st = Some (Inr st'))"
  using assms
  by (auto simp: lazyrandomization_def Let_def split: option.splits sum.splits prod.splits if_splits)

subsection \<open>Consistency of the cached randomization: facts\<close>

lemma lazyrandomization_consistent:
  assumes "randomization_consistent st"
    and "lazyrandomization P t st = Some (Inr (sweep, st'))"
  shows "randomization_consistent st' \<and> framemode st' = framemode st"
proof (cases "sweep = currentsweep st")
  case True
  with lazyrandomization_Inr [OF assms(2)] assms(1) show ?thesis by simp
next
  case False
  with lazyrandomization_Inr [OF assms(2)] have r: "rerandomize P sweep st = Some (Inr st')"
    by auto
  from r obtain refs cs where
    m: "(if framemode st then randomizeframemode P sweep (size_t P (sweep * corpus_totalframes st))
             (st\<lparr>currentsweep := sweep, randomizedchunks := cs\<rparr>)
          else randomizeutterancemode P sweep (size_t P (sweep * corpus_totalframes st))
             (st\<lparr>currentsweep := sweep, randomizedchunks := cs\<rparr>)) = Some (Inr st')"
    by (rule rerandomize_Inr)
  show ?thesis
  proof (cases "framemode st")
    case True
    from m True obtain F where
      "st' = st\<lparr>currentsweep := sweep, randomizedchunks := cs, randomizedframerefs := F\<rparr>"
      by (auto elim: randomizeframemode_Inr)
    with assms(1) show ?thesis by (simp add: randomization_consistent_def)
  next
    case False
    from m False obtain refs W where
      st': "st' = st\<lparr>currentsweep := sweep, randomizedchunks := cs, positionchunkwindows := W,
                   randomizedutterancerefs := refs,
                   randomizedutteranceposmap := buildposmap refs\<rparr>"
      by (auto elim: randomizeutterancemode_Inr)
    then show ?thesis
      by (simp add: randomization_consistent_def)
  qed
qed

subsection \<open>The selection loop and what paging leaves alone: facts\<close>

lemma addutterances_facts:
  "addutterances refs numutt fr epos mb = Inr (epos', mb') \<Longrightarrow>
     epos \<le> epos' \<and> mb' = mb + (\<Sum>p = epos..<epos'. numframes (refs ! p)) \<and>
     (epos' = epos \<or> mb' < fr) \<and>
     (epos' < numutt \<longrightarrow> fr \<le> mb' + numframes (refs ! epos'))"
proof (induction refs numutt fr epos mb rule: addutterances.induct)
  case (1 refs numutt fr epos mb)
  show ?case
  proof (cases "epos < numutt \<and> epos < length refs \<and> mb + numframes (refs ! epos) < fr")
    case True
    with "1.prems" have r: "addutterances refs numutt fr (Suc epos) (mb + numframes (refs ! epos))
        = Inr (epos', mb')"
      by (subst (asm) addutterances.simps) simp
    from "1.IH" [OF _ _ _ r] True have ih:
      "Suc epos \<le> epos' \<and>
       mb' = mb + numframes (refs ! epos) + (\<Sum>p = Suc epos..<epos'. numframes (refs ! p)) \<and>
       (epos' = Suc epos \<or> mb' < fr) \<and>
       (epos' < numutt \<longrightarrow> fr \<le> mb' + numframes (refs ! epos'))"
      by auto
    then have "(\<Sum>p = epos..<epos'. numframes (refs ! p))
        = numframes (refs ! epos) + (\<Sum>p = Suc epos..<epos'. numframes (refs ! p))"
      by (simp add: sum.atLeast_Suc_lessThan)
    with ih True show ?thesis by auto
  next
    case False
    with "1.prems" have "epos' = epos \<and> mb' = mb"
      by (subst (asm) addutterances.simps) (auto split: if_splits)
    with False "1.prems" show ?thesis
      by (subst (asm) addutterances.simps) (auto split: if_splits)
  qed
qed

lemma releaserandomizedchunk_snapshot:
  "releaserandomizedchunk P k st = Inr st' \<Longrightarrow> snapshot st' = snapshot st"
  by (auto simp: releaserandomizedchunk_def snapshot_def Let_def split: if_splits sum.splits)

lemma attempt_preserves:
  assumes "attempt n body s = (r, s')" and "Q s"
    and "\<And>s r s'. body s = (r, s') \<Longrightarrow> Q s \<Longrightarrow> Q s'"
  shows "Q s'"
  using assms(1,2)
proof (induction n arbitrary: s)
  case 0
  then show ?case using assms(3) by auto
next
  case (Suc n)
  obtain r1 s1 where b: "body s = (r1, s1)" by (cases "body s") auto
  from assms(3) [OF b Suc.prems(2)] have q1: "Q s1" .
  show ?case
  proof (cases "r1 = None \<or> n = 0")
    case True
    with b Suc.prems(1) have "s' = s1" by (auto split: option.splits)
    with q1 show ?thesis by simp
  next
    case False
    with b Suc.prems(1) have "attempt n body s1 = (r, s')" by (auto split: option.splits)
    from Suc.IH [OF this q1] show ?thesis .
  qed
qed

lemma requiredata_call_snapshot:
  "requiredata_call io ci st = (r, st') \<Longrightarrow> snapshot st' = snapshot st"
  by (auto simp: requiredata_call_def snapshot_def split: prod.splits)

lemma requirerandomizedchunk_snapshot:
  assumes "requirerandomizedchunk io k wb we st = (r, st')"
  shows "snapshot st' = snapshot st"
proof (cases "k < wb \<or> k \<ge> we \<or> k \<ge> length (randomizedchunks st) \<or>
              isinram (allchunks st ! uttchunkdata (randomizedchunks st ! k))")
  case True
  with assms have "st' = st"
    by (auto simp: requirerandomizedchunk_def Let_def split: if_splits)
  then show ?thesis by simp
next
  case False
  let ?ci = "uttchunkdata (randomizedchunks st ! k)"
  obtain r1 st1 where att: "attempt 5 (requiredata_call io ?ci) st = (r1, st1)"
    by (cases "attempt 5 (requiredata_call io ?ci) st") auto
  have s1: "snapshot st1 = snapshot st"
    by (rule attempt_preserves [where Q = "\<lambda>s. snapshot s = snapshot st", OF att])
       (auto dest: requiredata_call_snapshot)
  from assms False att have "st' = st1 \<or> st' = st1\<lparr>chunksinram := Suc (chunksinram st1)\<rparr>"
    by (auto simp: requirerandomizedchunk_def Let_def split: option.splits)
  with s1 show ?thesis by (auto simp: snapshot_def)
qed

lemma requirestep_snapshot:
  "requirestep io k wb we s = Inr s' \<Longrightarrow> snapshot (snd s') = snapshot (snd s)"
  by (auto simp: requirestep_def split: prod.splits sum.splits dest: requirerandomizedchunk_snapshot)

subsection \<open>What a batch of utterance mode consists of: facts\<close>

lemma getbatch_utterancemode_Inr:
  assumes "getbatch_utterancemode P io ts fr st = Inr (b, st')"
  obtains spos epos mb where
    "randomizedutteranceposmap st ts = Some spos"
    and "spos < length (randomizedutterancerefs st)"
    and "addutterances (randomizedutterancerefs st) (corpus_numutterances st) fr (spos + 1)
           (numframes (randomizedutterancerefs st ! spos)) = Inr (epos, mb)"
    and "feat b = matrix_resize (vdim st') mb" and "positions b = (spos, epos)"
    and "snapshot st' = snapshot st"
proof -
  from assms obtain spos epos mb st1 st2 rd wb we where
    p: "randomizedutteranceposmap st ts = Some spos" "spos < length (randomizedutterancerefs st)"
       "addutterances (randomizedutterancerefs st) (corpus_numutterances st) fr (spos + 1)
           (numframes (randomizedutterancerefs st ! spos)) = Inr (epos, mb)"
    and l1: "foreach [0..<wb] (releaserandomizedchunk P) st = Inr st1"
    and l2: "foreach [we..<length (randomizedchunks st1)] (releaserandomizedchunk P) st1 = Inr st2"
    and l3: "foreach [spos..<epos]
               (\<lambda>pos s. if pos \<ge> length (randomizedutterancerefs (snd s))
                        then Inl (undefined_behaviour ''randomizedutterancerefs[pos]'')
                        else requirestep io (chunkindex (randomizedutterancerefs (snd s) ! pos)) wb we s)
               (False, st2) = Inr (rd, st')"
    and b: "feat b = matrix_resize (vdim st') mb" "positions b = (spos, epos)"
    by (auto simp: getbatch_utterancemode_def Let_def
             split: option.splits sum.splits prod.splits if_splits)
  have s1: "snapshot st1 = snapshot st"
    by (rule foreach_preserves [where Q = "\<lambda>s. snapshot s = snapshot st", OF l1])
       (auto dest: releaserandomizedchunk_snapshot)
  have s2: "snapshot st2 = snapshot st"
    by (rule foreach_preserves [where Q = "\<lambda>s. snapshot s = snapshot st", OF l2])
       (auto simp: s1 dest: releaserandomizedchunk_snapshot)
  have "snapshot (snd (rd, st')) = snapshot st"
    by (rule foreach_preserves [where Q = "\<lambda>s. snapshot (snd s) = snapshot st", OF l3])
       (auto simp: s2 split: if_splits dest: requirestep_snapshot)
  then have "snapshot st' = snapshot st" by simp
  with p b that show ?thesis by blast
qed


lemma getbatch_selection:
  assumes "randomization_consistent st" and "\<not> framemode st"
    and "getbatch P io ts fr st = Some (Inr (b, st'))"
  obtains spos epos where
    "positions b = (spos, epos)" and "spos < epos"
    and "spos < length (randomizedutterancerefs st')"
    and "globalts (randomizedutterancerefs st' ! spos) = ts"
    and "numcols (feat b) = (\<Sum>p = spos..<epos. numframes (randomizedutterancerefs st' ! p))"
    and "epos = Suc spos \<or> numcols (feat b) < fr"
    and "epos < corpus_numutterances st' \<longrightarrow>
           fr \<le> numcols (feat b) + numframes (randomizedutterancerefs st' ! epos)"
proof -
  from assms(3) obtain sweep st1 where
    lr: "lazyrandomization P ts st = Some (Inr (sweep, st1))"
    by (auto simp: getbatch_def split: option.splits sum.splits)
  note c = lazyrandomization_consistent [OF assms(1) lr]
  with assms(2,3) lr have g: "getbatch_utterancemode P io ts fr st1 = Inr (b, st')"
    by (simp add: getbatch_def)
  from g obtain spos epos mb where
    pm: "randomizedutteranceposmap st1 ts = Some spos"
    and sl: "spos < length (randomizedutterancerefs st1)"
    and au: "addutterances (randomizedutterancerefs st1) (corpus_numutterances st1) fr (spos + 1)
           (numframes (randomizedutterancerefs st1 ! spos)) = Inr (epos, mb)"
    and b: "feat b = matrix_resize (vdim st') mb" "positions b = (spos, epos)"
    and sn: "snapshot st' = snapshot st1"
    by (rule getbatch_utterancemode_Inr)
  from sn have eq: "randomizedutterancerefs st' = randomizedutterancerefs st1"
      "corpus_numutterances st' = corpus_numutterances st1"
    by (simp_all add: snapshot_def)
  from pm c have "buildposmap (randomizedutterancerefs st1) ts = Some spos"
    by (simp add: randomization_consistent_def)
  from buildposmap_Some [OF this] have gt: "globalts (randomizedutterancerefs st1 ! spos) = ts"
    by simp
  let ?refs = "randomizedutterancerefs st1"
  from addutterances_facts [OF au] have af:
    "Suc spos \<le> epos \<and>
     mb = numframes (?refs ! spos) + (\<Sum>p = Suc spos..<epos. numframes (?refs ! p)) \<and>
     (epos = Suc spos \<or> mb < fr) \<and>
     (epos < corpus_numutterances st1 \<longrightarrow> fr \<le> mb + numframes (?refs ! epos))"
    by auto
  then have af1: "Suc spos \<le> epos"
    and af2: "mb = numframes (?refs ! spos) + (\<Sum>p = Suc spos..<epos. numframes (?refs ! p))"
    and af3: "epos = Suc spos \<or> mb < fr"
    and af4: "epos < corpus_numutterances st1 \<longrightarrow> fr \<le> mb + numframes (?refs ! epos)"
    by blast+
  from af1 af2 have sum: "mb = (\<Sum>p = spos..<epos. numframes (?refs ! p))"
    by (simp add: sum.atLeast_Suc_lessThan)
  have nc: "numcols (feat b) = mb" using b(1) by (simp add: matrix_resize_def)
  have lt: "spos < epos" using af1 by simp
  have e1: "epos = Suc spos \<or> numcols (feat b) < fr" using af3 nc by simp
  have e2: "epos < corpus_numutterances st' \<longrightarrow>
           fr \<le> numcols (feat b) + numframes (randomizedutterancerefs st' ! epos)"
    using af4 nc eq by simp
  have e3: "numcols (feat b) = (\<Sum>p = spos..<epos. numframes (randomizedutterancerefs st' ! p))"
    using sum nc eq by simp
  have e4: "spos < length (randomizedutterancerefs st')"
    "globalts (randomizedutterancerefs st' ! spos) = ts"
    using sl gt eq by simp_all
  show ?thesis
    by (rule that [OF b(2) lt e4 e3 e1 e2])
qed

subsection \<open>The chunks on the timeline: facts\<close>

lemma foreach_append:
  "foreach (xs @ ys) body s =
     (case foreach xs body s of Inl e \<Rightarrow> Inl e | Inr s' \<Rightarrow> foreach ys body s')"
  by (induction xs arbitrary: s) (auto split: sum.splits)

lemma foreach_upt_Suc:
  "foreach [0..<Suc n] body s =
     (case foreach [0..<n] body s of Inl e \<Rightarrow> Inl e | Inr s' \<Rightarrow> body n s')"
  by (simp add: foreach_append split: sum.splits)

lemma placechunks_snoc:
  "placechunks P A sweepts (refs @ [r]) = placechunk P A sweepts r (placechunks P A sweepts refs)"
  by (simp add: placechunks_def)

lemma placechunks_length: "length (placechunks P A sweepts refs) = length refs"
  by (induction refs rule: rev_induct) (simp_all add: placechunks_snoc placechunk_def placechunks_def)

lemma placechunks_nth:
  "k < length refs \<Longrightarrow> sweepts \<le> SIZE_MAX P \<Longrightarrow>
     uttchunkdata (placechunks P A sweepts refs ! k) = refs ! k \<and>
     utteranceposbegin (placechunks P A sweepts refs ! k)
       = (\<Sum>j<k. numutterances (A ! (refs ! j))) \<and>
     chunk_globalts (placechunks P A sweepts refs ! k)
       = size_t P (sweepts + (\<Sum>j<k. totalframes (A ! (refs ! j))))"
proof (induction refs arbitrary: k rule: rev_induct)
  case Nil
  then show ?case by simp
next
  case (snoc r refs)
  let ?cs = "placechunks P A sweepts refs"
  have len: "length ?cs = length refs" by (rule placechunks_length)
  show ?case
  proof (cases "k < length refs")
    case True
    with snoc.IH [OF True snoc.prems(2)] len show ?thesis
      by (simp add: placechunks_snoc placechunk_def nth_append)
  next
    case False
    with snoc.prems have k: "k = length refs" by simp
    show ?thesis
    proof (cases "refs = []")
      case True
      with k snoc.prems(2) show ?thesis
        by (simp add: placechunks_snoc placechunk_def placechunks_def size_t_less)
    next
      case False
      then have ne: "?cs \<noteq> []" using len by auto
      from False have l: "length refs - 1 < length refs" by (cases refs) auto
      have last: "last ?cs = ?cs ! (length refs - 1)"
        using ne len by (simp add: last_conv_nth)
      from snoc.IH [OF l snoc.prems(2)] have ih:
        "uttchunkdata (?cs ! (length refs - 1)) = refs ! (length refs - 1)"
        "utteranceposbegin (?cs ! (length refs - 1)) = (\<Sum>j<length refs - 1. numutterances (A ! (refs ! j)))"
        "chunk_globalts (?cs ! (length refs - 1))
           = size_t P (sweepts + (\<Sum>j<length refs - 1. totalframes (A ! (refs ! j))))"
        by simp_all
      obtain m where m: "length refs = Suc m" using False by (cases refs) auto
      have nth: "\<And>j. j < length refs \<Longrightarrow> (refs @ [r]) ! j = refs ! j"
        by (simp add: nth_append)
      have s1: "(\<Sum>j<length refs. numutterances (A ! ((refs @ [r]) ! j)))
          = (\<Sum>j<length refs. numutterances (A ! (refs ! j)))"
        by (rule sum.cong) (simp_all add: nth)
      have s2: "(\<Sum>j<length refs. totalframes (A ! ((refs @ [r]) ! j)))
          = (\<Sum>j<length refs. totalframes (A ! (refs ! j)))"
        by (rule sum.cong) (simp_all add: nth)
      from k ne len last ih m s1 s2 show ?thesis
        by (simp add: placechunks_snoc placechunk_def nth_append utteranceposend_def
              chunk_globalte_def chunk_numutterances_def chunk_numframes_def
              size_t_add_left add.assoc)
    qed
  qed
qed

lemma map_update_same: "(map f xs)[k := f (xs ! k)] = map f xs"
  by (cases "k < length xs") (simp_all add: list_update_same_conv list_update_beyond)

lemma setwindow_placement:
  assumes "setwindow P A half k cs = Inr cs'"
  shows "map uttchunkdata cs' = map uttchunkdata cs \<and>
         map utteranceposbegin cs' = map utteranceposbegin cs \<and>
         map chunk_globalts cs' = map chunk_globalts cs"
proof -
  from assms obtain wb we where "cs' = cs[k := (cs ! k)\<lparr>windowbegin := wb, windowend := we\<rparr>]"
    by (auto simp: setwindow_def Let_def split: sum.splits)
  then show ?thesis
    by (simp add: map_update map_update_same)
qed

lemma computewindows_placement:
  assumes "computewindows P A R cs = Inr cs'"
  shows "map uttchunkdata cs' = map uttchunkdata cs \<and>
         map utteranceposbegin cs' = map utteranceposbegin cs \<and>
         map chunk_globalts cs' = map chunk_globalts cs"
  using assms unfolding computewindows_def
  by (rule foreach_preserves [where Q = "\<lambda>s. map uttchunkdata s = map uttchunkdata cs \<and>
         map utteranceposbegin s = map utteranceposbegin cs \<and>
         map chunk_globalts s = map chunk_globalts cs"])
     (auto dest: setwindow_placement)

lemma map_eq_nth:
  "map f xs = map f ys \<Longrightarrow> length xs = length ys \<and> (\<forall>i < length ys. f (xs ! i) = f (ys ! i))"
  by (metis length_map nth_map)

lemma computewindows_placechunks:
  assumes "computewindows P A R (placechunks P A sweepts refs) = Inr cs"
    and "sweepts \<le> SIZE_MAX P"
  shows "length cs = length refs"
    and "k < length refs \<Longrightarrow> uttchunkdata (cs ! k) = refs ! k"
    and "k < length refs \<Longrightarrow> utteranceposbegin (cs ! k) = (\<Sum>j<k. numutterances (A ! (refs ! j)))"
    and "k < length refs \<Longrightarrow>
           chunk_globalts (cs ! k) = size_t P (sweepts + (\<Sum>j<k. totalframes (A ! (refs ! j))))"
proof -
  note p = computewindows_placement [OF assms(1)]
  from p have l: "length cs = length (placechunks P A sweepts refs)"
    using map_eq_nth by blast
  then show "length cs = length refs" by (simp add: placechunks_length)
  {
    assume k: "k < length refs"
    then have k': "k < length (placechunks P A sweepts refs)" by (simp add: placechunks_length)
    from p k' map_eq_nth [of uttchunkdata cs "placechunks P A sweepts refs"]
      map_eq_nth [of utteranceposbegin cs "placechunks P A sweepts refs"]
      map_eq_nth [of chunk_globalts cs "placechunks P A sweepts refs"]
    have "uttchunkdata (cs ! k) = uttchunkdata (placechunks P A sweepts refs ! k)"
      "utteranceposbegin (cs ! k) = utteranceposbegin (placechunks P A sweepts refs ! k)"
      "chunk_globalts (cs ! k) = chunk_globalts (placechunks P A sweepts refs ! k)"
      by auto
    with placechunks_nth [OF k assms(2), of A]
    show "uttchunkdata (cs ! k) = refs ! k"
      and "utteranceposbegin (cs ! k) = (\<Sum>j<k. numutterances (A ! (refs ! j)))"
      and "chunk_globalts (cs ! k) = size_t P (sweepts + (\<Sum>j<k. totalframes (A ! (refs ! j))))"
      by simp_all
  }
qed

text \<open>Position \<open>i\<close> of a concatenation of blocks lies in block \<open>k\<close>.\<close>

lemma concat_blocks_nth:
  assumes "k < n" and "(\<Sum>j<k. c j) \<le> i" and "i < (\<Sum>j<k. c j) + c k"
    and "\<And>k. k < n \<Longrightarrow> length (g k) = c k"
  shows "i < length (concat (map g [0..<n]))
       \<and> concat (map g [0..<n]) ! i = g k ! (i - (\<Sum>j<k. c j))"
  using assms
proof (induction n)
  case 0
  then show ?case by simp
next
  case (Suc n)
  have l: "length (concat (map g [0..<n])) = (\<Sum>j<n. c j)"
    using Suc.prems(4) by (induction n) (simp_all)
  show ?case
  proof (cases "k < n")
    case True
    from Suc.IH [OF True Suc.prems(2,3)] Suc.prems(4) show ?thesis
      by (simp add: nth_append)
  next
    case False
    with Suc.prems(1) have k: "k = n" by simp
    with Suc.prems l show ?thesis by (simp add: nth_append)
  qed
qed

subsection \<open>The small corpus, evaluated\<close>

lemmas upt_eval = upt_rec [of 0] upt_rec [of "Suc 0"] upt_rec [of "numeral k"] for k

lemmas to_numeral = numeral_2_eq_2 [symmetric] numeral_3_eq_3 [symmetric]

lemma replicate_numeral: "replicate (numeral k) x = x # replicate (pred_numeral k) x"
  by (simp add: numeral_eq_Suc)

lemma size_t_example: "size_t example_platform x = x mod 18446744073709551616"
  by (simp add: size_t_def SIZE_MAX_def example_platform_def)

lemma size_minus_example:
  "size_minus example_platform a b = nat ((int a - int b) mod 18446744073709551616)"
  by (simp add: size_minus_def SIZE_MAX_def example_platform_def)

lemma example_consistent: "randomization_consistent example_randomized"
  by (simp add: randomization_consistent_def example_randomized_def example_source_def
        example_utterancerefs_def buildposmap_def upt_eval to_numeral)

lemma example_shuffle: "randomshuffle example_platform [0] 0 = Inr [0]"
  by (simp add: randomshuffle_def example_platform_def rand_def unsigned_int_def)

lemma example_windows:
  "computewindows example_platform [example_chunk] 1000000 (placechunks example_platform [example_chunk] 0 [0]) = Inr example_chunks"
  by (simp add: computewindows_def placechunks_def placechunk_def setwindow_def example_chunks_def
        chunk_globalte_def chunk_numframes_def example_chunk_def
        windowbegin_loop.simps windowend_loop.simps size_t_example size_minus_example)

lemma example_randomizeutterancemode:
  "randomizeutterancemode example_platform 0 0
     (example_source\<lparr>currentsweep := 0, randomizedchunks := example_chunks\<rparr>)
   = Some (Inr example_randomized)"
proof -
  let ?st = "example_source\<lparr>currentsweep := 0, randomizedchunks := example_chunks\<rparr>"
  have A: "allchunks ?st = [example_chunk]" "randomizedchunks ?st = example_chunks"
    by (simp_all add: example_source_def)
  have W: "initpositionchunkwindows [example_chunk] example_chunks = [0, 0, 0]"
    by (simp add: initpositionchunkwindows_def example_chunks_def example_chunk_def
          chunk_numutterances_def numutterances_def utteranceposend_def upt_eval to_numeral
          replicate_numeral)
  have R0: "initutterancerefs example_platform [example_chunk] example_chunks = example_initrefs"
    by (simp add: initutterancerefs_def example_chunks_def example_chunk_def chunk_numutterances_def
          numutterances_def example_initrefs_def upt_eval to_numeral)
  have len: "length example_initrefs = 3"
    by (simp add: example_initrefs_def)
  have raw: "rawrand example_platform (unsigned_int (unsigned_int 0 + 1)) = (\<lambda>n. n)"
    by (simp add: example_platform_def)
  have R1: "randomizeutterances (\<lambda>n. n) [example_chunk] example_chunks [0, 0, 0] [0..<3]
              example_initrefs 0 = Some (Inr (example_initrefs, 3))"
    by (simp add: pickutterance.simps rand_def example_initrefs_def positionrange_def
          utteranceposend_def example_chunks_def example_chunk_def chunk_numutterances_def
          numutterances_def upt_eval to_numeral)
  have Pl: "placeutterances example_platform [example_chunk] example_chunks 0 example_initrefs = Inr example_utterancerefs"
    by (simp add: example_initrefs_def globalte_def example_chunks_def example_chunk_def
          chunk_numutterances_def numutterances_def new_utteranceref_def example_utterancerefs_def
          upt_eval to_numeral size_t_example)
  have V: "verifyutterances example_chunks [0, 0, 0] example_utterancerefs = Inr ()"
    by (simp add: verifyutterances_def example_utterancerefs_def example_chunks_def upt_eval to_numeral)
  have M: "buildposmap example_utterancerefs = [0 \<mapsto> 0, 100 \<mapsto> 1, 250 \<mapsto> 2]"
    by (simp add: example_utterancerefs_def buildposmap_def upt_eval to_numeral)
  have "randomizeutterancemode example_platform 0 0 ?st
          = Some (Inr (?st\<lparr>positionchunkwindows := [0, 0, 0],
                           randomizedutterancerefs := example_utterancerefs,
                           randomizedutteranceposmap := [0 \<mapsto> 0, 100 \<mapsto> 1, 250 \<mapsto> 2]\<rparr>))"
    by (simp only: randomizeutterancemode_def Let_def A W R0 len raw R1 Pl V M
          option.case sum.case prod.case)
  then show ?thesis
    by (simp add: example_randomized_def)
qed

lemma example_lazyrandomization:
  "lazyrandomization example_platform 0 example_source = Some (Inr (0, example_randomized))"
proof -
  have a: "allchunks example_source = [example_chunk]" "\<not> framemode example_source"
    "corpus_totalframes example_source = 330" "currentsweep example_source = SIZE_MAX example_platform"
    "randomizationrange example_source = 1000000"
    by (simp_all add: example_source_def)
  have s: "SIZE_MAX example_platform \<noteq> 0" by (simp add: SIZE_MAX_def)
  show ?thesis
    by (simp add: lazyrandomization_def rerandomize_def Let_def a s example_shuffle example_windows
          example_randomizeutterancemode size_t_example)
qed

lemma example_lazyrandomization_cached:
  "t < 330 \<Longrightarrow> lazyrandomization example_platform t example_randomized = Some (Inr (0, example_randomized))"
  by (simp add: lazyrandomization_def example_randomized_def example_source_def)

lemma example_require:
  "requirerandomizedchunk world_ok 0 0 (Suc 0) example_randomized = (Inr True, example_loaded)"
  by (simp add: requirerandomizedchunk_def attempt_numeral requiredata_call_def requiredata_def
        requiredata_try_def numutterances_def isinram_def matrix_empty_def matrix_resize_def
        example_randomized_def example_source_def example_chunks_def example_chunk_def
        example_loaded_def world_ok_def upt_eval to_numeral)

lemma example_addutterances:
  "addutterances example_utterancerefs 3 200 (Suc 0) 100 = Inr (Suc 0, 100)"
  by (simp add: addutterances.simps example_utterancerefs_def)

lemma example_copy:
  "copyutterance example_platform example_loaded 0 (0, [], [], []) = Inr (100, [], [], [])"
  by (simp add: copyutterance_def getutteranceframes_def getclassids_def issupervised_def
        numutterances_def isinram_def matrix_empty_def matrix_resize_def
        example_loaded_def example_randomized_def example_source_def example_chunks_def
        example_chunk_def example_utterancerefs_def)

lemma example_getbatch_utterancemode:
  "getbatch_utterancemode example_platform world_ok 0 200 example_randomized
     = Inr (example_batch, example_loaded)"
proof -
  have f: "randomizedutteranceposmap example_randomized 0 = Some 0"
       "randomizedutterancerefs example_randomized = example_utterancerefs"
       "corpus_numutterances example_randomized = 3"
       "positionchunkwindows example_randomized = [0, 0, 0]"
       "randomizedchunks example_randomized = example_chunks"
       "randomizedutterancerefs example_loaded = example_utterancerefs"
       "\<not> issupervised example_loaded" "vdim example_loaded = 39"
    by (simp_all add: example_randomized_def example_loaded_def example_source_def issupervised_def)
  have g: "length example_utterancerefs = 3" "numframes (example_utterancerefs ! 0) = 100"
       "chunkindex (example_utterancerefs ! 0) = 0"
       "windowbegin (example_chunks ! 0) = 0" "windowend (example_chunks ! 0) = 1"
       "length example_chunks = 1" "example_utterancerefs \<noteq> []"
    by (simp_all add: example_utterancerefs_def example_chunks_def)
  show ?thesis
    by (simp add: getbatch_utterancemode_def f g example_addutterances example_require
          example_copy requirestep_def example_batch_def upt_eval)
qed

lemma example_getbatch:
  "getbatch example_platform world_ok 0 200 example_source = Some (Inr (example_batch, example_loaded))"
proof -
  have "\<not> framemode example_randomized"
    by (simp add: example_randomized_def example_source_def)
  then show ?thesis
    by (simp add: getbatch_def example_lazyrandomization example_getbatch_utterancemode)
qed

lemma example_getbatch_second:
  "getbatch example_platform world_ok 100 1 example_randomized
     = Some (Inr (example_batch\<lparr>feat := matrix_resize 39 150, positions := (1, 2)\<rparr>, example_loaded))"
proof -
  have f: "randomizedutteranceposmap example_randomized 100 = Some (Suc 0)"
       "randomizedutterancerefs example_randomized = example_utterancerefs"
       "corpus_numutterances example_randomized = 3"
       "positionchunkwindows example_randomized = [0, 0, 0]"
       "randomizedchunks example_randomized = example_chunks"
       "randomizedutterancerefs example_loaded = example_utterancerefs"
       "\<not> issupervised example_loaded" "vdim example_loaded = 39"
       "\<not> framemode example_randomized"
    by (simp_all add: example_randomized_def example_loaded_def example_source_def issupervised_def)
  have g: "length example_utterancerefs = 3" "numframes (example_utterancerefs ! Suc 0) = 150"
       "chunkindex (example_utterancerefs ! Suc 0) = 0"
       "windowbegin (example_chunks ! 0) = 0" "windowend (example_chunks ! 0) = 1"
       "length example_chunks = 1" "example_utterancerefs \<noteq> []"
    by (simp_all add: example_utterancerefs_def example_chunks_def)
  have a: "addutterances example_utterancerefs 3 (Suc 0) (Suc (Suc 0)) 150 = Inr (2, 150)"
    by (simp add: addutterances.simps example_utterancerefs_def)
  have c: "copyutterance example_platform example_loaded (Suc 0) (0, [], [], []) = Inr (150, [], [], [])"
    by (simp add: copyutterance_def getutteranceframes_def getclassids_def issupervised_def
        numutterances_def isinram_def matrix_empty_def matrix_resize_def
        example_loaded_def example_randomized_def example_source_def example_chunks_def
        example_chunk_def example_utterancerefs_def)
  have "getbatch_utterancemode example_platform world_ok 100 1 example_randomized
     = Inr (example_batch\<lparr>feat := matrix_resize 39 150, positions := (1, 2)\<rparr>, example_loaded)"
    by (simp add: getbatch_utterancemode_def f g a c example_require
          requirestep_def example_batch_def upt_eval)
  with f(9) show ?thesis
    by (simp add: getbatch_def example_lazyrandomization_cached)
qed

lemma example_windows1:
  "computewindows example_platform [example_chunk] 1000000
     (placechunks example_platform [example_chunk] 330 [0]) = Inr example_chunks1"
  by (simp add: computewindows_def placechunks_def placechunk_def setwindow_def example_chunks1_def
        chunk_globalte_def chunk_numframes_def example_chunk_def
        windowbegin_loop.simps windowend_loop.simps size_t_example size_minus_example)

lemma example_randomizeutterancemode1:
  "randomizeutterancemode example_platform (Suc 0) 330
     (example_randomized\<lparr>currentsweep := Suc 0, randomizedchunks := example_chunks1\<rparr>)
   = Some (Inr example_randomized1)"
proof -
  let ?st = "example_randomized\<lparr>currentsweep := Suc 0, randomizedchunks := example_chunks1\<rparr>"
  have A: "allchunks ?st = [example_chunk]" "randomizedchunks ?st = example_chunks1"
    by (simp_all add: example_randomized_def example_source_def)
  have W: "initpositionchunkwindows [example_chunk] example_chunks1 = [0, 0, 0]"
    by (simp add: initpositionchunkwindows_def example_chunks1_def example_chunk_def
          chunk_numutterances_def numutterances_def utteranceposend_def upt_eval to_numeral
          replicate_numeral)
  have R0: "initutterancerefs example_platform [example_chunk] example_chunks1 = example_initrefs"
    by (simp add: initutterancerefs_def example_chunks1_def example_chunk_def chunk_numutterances_def
          numutterances_def example_initrefs_def upt_eval to_numeral)
  have len: "length example_initrefs = 3"
    by (simp add: example_initrefs_def)
  have raw: "rawrand example_platform (unsigned_int (unsigned_int (Suc 0) + 1)) = (\<lambda>n. n)"
    by (simp add: example_platform_def)
  have R1: "randomizeutterances (\<lambda>n. n) [example_chunk] example_chunks1 [0, 0, 0] [0..<3]
              example_initrefs 0 = Some (Inr (example_initrefs, 3))"
    by (simp add: pickutterance.simps rand_def example_initrefs_def positionrange_def
          utteranceposend_def example_chunks1_def example_chunk_def chunk_numutterances_def
          numutterances_def upt_eval to_numeral)
  have Pl: "placeutterances example_platform [example_chunk] example_chunks1 330 example_initrefs
              = Inr example_utterancerefs1"
    by (simp add: example_initrefs_def globalte_def example_chunks1_def example_chunk_def
          chunk_numutterances_def numutterances_def new_utteranceref_def example_utterancerefs1_def
          upt_eval to_numeral size_t_example)
  have V: "verifyutterances example_chunks1 [0, 0, 0] example_utterancerefs1 = Inr ()"
    by (simp add: verifyutterances_def example_utterancerefs1_def example_chunks1_def upt_eval to_numeral)
  have M: "buildposmap example_utterancerefs1 = [330 \<mapsto> 0, 430 \<mapsto> 1, 580 \<mapsto> 2]"
    by (simp add: example_utterancerefs1_def buildposmap_def upt_eval to_numeral)
  have "randomizeutterancemode example_platform (Suc 0) 330 ?st
          = Some (Inr (?st\<lparr>positionchunkwindows := [0, 0, 0],
                           randomizedutterancerefs := example_utterancerefs1,
                           randomizedutteranceposmap := [330 \<mapsto> 0, 430 \<mapsto> 1, 580 \<mapsto> 2]\<rparr>))"
    by (simp only: randomizeutterancemode_def Let_def A W R0 len raw R1 Pl V M
          option.case sum.case prod.case)
  then show ?thesis
    by (simp add: example_randomized1_def example_randomized_def)
qed

lemma example_shuffle1: "randomshuffle example_platform [0] (Suc 0) = Inr [0]"
  by (simp add: randomshuffle_def example_platform_def rand_def unsigned_int_def)

lemma example_lazyrandomization1:
  "lazyrandomization example_platform 400 example_randomized = Some (Inr (1, example_randomized1))"
proof -
  have a: "allchunks example_randomized = [example_chunk]" "\<not> framemode example_randomized"
    "corpus_totalframes example_randomized = 330" "currentsweep example_randomized = 0"
    "randomizationrange example_randomized = 1000000"
    by (simp_all add: example_randomized_def example_source_def)
  have d: "(400::nat) div 330 = 1" by simp
  show ?thesis
    by (simp add: lazyrandomization_def rerandomize_def Let_def a d example_shuffle1 example_windows1
          example_randomizeutterancemode1 size_t_example)
qed

lemma example_corpus_consistent:
  "corpus_consistent example_platform example_randomized"
  by (simp add: corpus_consistent_def example_randomized_def example_source_def example_chunk_def
        SIZE_MAX_def example_platform_def)

lemma example_timeline_consistent:
  "timeline_consistent example_platform example_randomized"
  by (simp add: timeline_consistent_def example_randomized_def example_source_def
        example_utterancerefs_def size_t_example upt_eval to_numeral)

lemma example_windows_last:
  "computewindows example_platform [example_chunk] 1000000
     (placechunks example_platform [example_chunk] 18446744073709551600 [0]) = Inr example_chunks_last"
  by (simp add: computewindows_def placechunks_def placechunk_def setwindow_def example_chunks_last_def
        chunk_globalte_def chunk_numframes_def example_chunk_def
        windowbegin_loop.simps windowend_loop.simps size_t_example size_minus_example)

lemma example_randomizeutterancemode_last:
  "randomizeutterancemode example_platform 55899224465786520 18446744073709551600
     (example_randomized\<lparr>currentsweep := 55899224465786520, randomizedchunks := example_chunks_last\<rparr>)
   = Some (Inr example_randomized_last)"
proof -
  let ?st = "example_randomized\<lparr>currentsweep := 55899224465786520, randomizedchunks := example_chunks_last\<rparr>"
  have A: "allchunks ?st = [example_chunk]" "randomizedchunks ?st = example_chunks_last"
    by (simp_all add: example_randomized_def example_source_def)
  have W: "initpositionchunkwindows [example_chunk] example_chunks_last = [0, 0, 0]"
    by (simp add: initpositionchunkwindows_def example_chunks_last_def example_chunk_def
          chunk_numutterances_def numutterances_def utteranceposend_def upt_eval to_numeral
          replicate_numeral)
  have R0: "initutterancerefs example_platform [example_chunk] example_chunks_last = example_initrefs"
    by (simp add: initutterancerefs_def example_chunks_last_def example_chunk_def chunk_numutterances_def
          numutterances_def example_initrefs_def upt_eval to_numeral)
  have len: "length example_initrefs = 3"
    by (simp add: example_initrefs_def)
  have raw: "rawrand example_platform (unsigned_int (unsigned_int 55899224465786520 + 1)) = (\<lambda>n. n)"
    by (simp add: example_platform_def)
  have R1: "randomizeutterances (\<lambda>n. n) [example_chunk] example_chunks_last [0, 0, 0] [0..<3]
              example_initrefs 0 = Some (Inr (example_initrefs, 3))"
    by (simp add: pickutterance.simps rand_def example_initrefs_def positionrange_def
          utteranceposend_def example_chunks_last_def example_chunk_def chunk_numutterances_def
          numutterances_def upt_eval to_numeral)
  have Pl: "placeutterances example_platform [example_chunk] example_chunks_last 18446744073709551600
              example_initrefs = Inr example_utterancerefs_last"
    by (simp add: example_initrefs_def globalte_def example_chunks_last_def example_chunk_def
          chunk_numutterances_def numutterances_def new_utteranceref_def example_utterancerefs_last_def
          upt_eval to_numeral size_t_example)
  have V: "verifyutterances example_chunks_last [0, 0, 0] example_utterancerefs_last = Inr ()"
    by (simp add: verifyutterances_def example_utterancerefs_last_def example_chunks_last_def
          upt_eval to_numeral)
  have M: "buildposmap example_utterancerefs_last
             = [18446744073709551600 \<mapsto> 0, 84 \<mapsto> 1, 234 \<mapsto> 2]"
    by (simp add: example_utterancerefs_last_def buildposmap_def upt_eval to_numeral)
  have "randomizeutterancemode example_platform 55899224465786520 18446744073709551600 ?st
          = Some (Inr (?st\<lparr>positionchunkwindows := [0, 0, 0],
                           randomizedutterancerefs := example_utterancerefs_last,
                           randomizedutteranceposmap :=
                             [18446744073709551600 \<mapsto> 0, 84 \<mapsto> 1, 234 \<mapsto> 2]\<rparr>))"
    by (simp only: randomizeutterancemode_def Let_def A W R0 len raw R1 Pl V M
          option.case sum.case prod.case)
  then show ?thesis
    by (simp add: example_randomized_last_def example_randomized_def)
qed

lemma example_shuffle_last: "randomshuffle example_platform [0] 55899224465786520 = Inr [0]"
  by (simp add: randomshuffle_def example_platform_def rand_def unsigned_int_def)

lemma example_lazyrandomization_last:
  "lazyrandomization example_platform 18446744073709551610 example_randomized
     = Some (Inr (55899224465786520, example_randomized_last))"
proof -
  have a: "allchunks example_randomized = [example_chunk]" "\<not> framemode example_randomized"
    "corpus_totalframes example_randomized = 330" "currentsweep example_randomized = 0"
    "randomizationrange example_randomized = 1000000"
    by (simp_all add: example_randomized_def example_source_def)
  have d: "(18446744073709551610::nat) div 330 = 55899224465786520" by simp
  show ?thesis
    by (simp add: lazyrandomization_def rerandomize_def Let_def a d example_shuffle_last
          example_windows_last example_randomizeutterancemode_last size_t_example)
qed

subsection \<open>Window validity of utterance positions: facts\<close>

lemma utterancesvalid_iff:
  "utterancesvalid cs W refs \<longleftrightarrow> (\<forall>i < length refs. isvalidforthisposition cs (W ! i) (refs ! i))"
  by (auto simp: utterancesvalid_def list_all_iff)

lemma framesvalid_iff:
  "framesvalid cs T F \<longleftrightarrow> (\<forall>t < length F. isframepositionvalid cs T F t)"
  by (auto simp: framesvalid_def list_all_iff)

lemma swap_utterancerefs_length [simp]: "length (swap_utterancerefs i j refs) = length refs"
  by (simp add: swap_utterancerefs_def)

lemma swap_utterancerefs_chunkindex:
  assumes "p < length refs"
  shows "chunkindex (swap_utterancerefs i j refs ! p)
           = (if p = j then chunkindex (refs ! i) else if p = i then chunkindex (refs ! j)
              else chunkindex (refs ! p))"
  using assms by (simp add: swap_utterancerefs_def nth_list_update)

lemma swap_utterancerefs_valid:
  assumes "utterancesvalid cs W refs"
    and "isvalidforthisposition cs (W ! i) (refs ! j)"
    and "isvalidforthisposition cs (W ! j) (refs ! i)"
  shows "utterancesvalid cs W (swap_utterancerefs i j refs)"
  using assms
  by (auto simp: utterancesvalid_iff isvalidforthisposition_def swap_utterancerefs_chunkindex)

lemma pickutterance_facts:
  assumes "pickutterance raw cs W i posbegin posend refs n = Some y"
  shows "\<forall>refs' n'. y = Inr (refs', n') \<longrightarrow>
           length refs' = length refs \<and> n < n' \<and>
           (utterancesvalid cs W refs \<longrightarrow> utterancesvalid cs W refs')"
proof (rule pickutterance.raw_induct [where P = "\<lambda>raw cs W i posbegin posend refs n y.
          \<forall>refs' n'. y = Inr (refs', n') \<longrightarrow>
           length refs' = length refs \<and> n < n' \<and>
           (utterancesvalid cs W refs \<longrightarrow> utterancesvalid cs W refs')", OF _ assms],
       goal_cases)
  case (1 f raw cs W i posbegin posend refs n y)
  note IH = 1(1) and body = 1(2)
  show ?case
  proof (cases "rand (raw n) posbegin posend")
    case (Inl e)
    with body show ?thesis by auto
  next
    case (Inr j)
    show ?thesis
    proof (cases "i = j \<or> j \<ge> length refs \<or> j \<ge> length W")
      case True
      with Inr body show ?thesis by (auto split: if_splits)
    next
      case False
      show ?thesis
      proof (cases "isvalidforthisposition cs (W ! i) (refs ! j) \<and>
                    isvalidforthisposition cs (W ! j) (refs ! i)")
        case True
        with False Inr body have "y = Inr (swap_utterancerefs i j refs, Suc n)"
          by auto
        with True show ?thesis by (auto intro: swap_utterancerefs_valid)
      next
        case nv: False
        with False Inr body
        have "f raw cs W i posbegin posend refs (Suc n) = Some y"
          by (auto split: if_splits)
        from IH [OF this] show ?thesis by auto
      qed
    qed
  qed
qed

lemma randomizeutterances_facts:
  "randomizeutterances raw A cs W is refs n = Some (Inr (refs', n')) \<Longrightarrow>
     length refs' = length refs \<and> (utterancesvalid cs W refs \<longrightarrow> utterancesvalid cs W refs')"
proof (induction "is" arbitrary: refs n)
  case Nil
  then show ?case by simp
next
  case (Cons i rest)
  from Cons.prems obtain pb pe refs1 n1 where
    p: "pickutterance raw cs W i pb pe refs n = Some (Inr (refs1, n1))"
    and r: "randomizeutterances raw A cs W rest refs1 n1 = Some (Inr (refs', n'))"
    by (auto split: sum.splits option.splits prod.splits)
  from pickutterance_facts [OF p] Cons.IH [OF r] show ?case by auto
qed

lemma placeutterances_chunkindex:
  "placeutterances P A cs t us = Inr us' \<Longrightarrow>
     length us' = length us \<and> (\<forall>i < length us. chunkindex (us' ! i) = chunkindex (us ! i))"
proof (induction us arbitrary: t us')
  case Nil
  then show ?case by simp
next
  case (Cons u us)
  from Cons.prems obtain rest t' where
    r: "placeutterances P A cs t' us = Inr rest"
    and us': "us' = u\<lparr>globalts := t,
         numframes := uttnumframes (utteranceset (A ! uttchunkdata (cs ! chunkindex u)) ! utteranceindex u)\<rparr> # rest"
    by (auto simp: Let_def split: if_splits sum.splits)
  from Cons.IH [OF r] us' show ?case
    by (auto simp: nth_Cons split: nat.splits)
qed

lemma placeutterances_valid:
  assumes "placeutterances P A cs t us = Inr us'"
  shows "utterancesvalid cs W us' = utterancesvalid cs W us"
  using placeutterances_chunkindex [OF assms]
  by (auto simp: utterancesvalid_iff isvalidforthisposition_def)

lemma verifyutterances_valid:
  "verifyutterances cs W refs = Inr u \<Longrightarrow> utterancesvalid cs W refs"
  by (auto simp: verifyutterances_def utterancesvalid_def isvalidforthisposition_def list_all_iff
           split: if_splits)

lemma length_concat_blocks:
  "(\<And>k. k < n \<Longrightarrow> length (g k) = c k) \<Longrightarrow> length (concat (map g [0..<n])) = (\<Sum>j<n. c j)"
  by (induction n) simp_all

lemma utterancemode_validity:
  assumes "rerandomize P sweep st = Some (Inr st')" and "\<not> framemode st"
  shows "\<forall>k < length (randomizedchunks st'). \<forall>i.
           utteranceposbegin (randomizedchunks st' ! k) \<le> i \<and>
           i < utteranceposend (allchunks st') (randomizedchunks st' ! k) \<longrightarrow>
           i < length (randomizedutterancerefs st') \<and> positionchunkwindows st' ! i = k \<and>
           isvalidforthisposition (randomizedchunks st') k (randomizedutterancerefs st' ! i)"
proof -
  let ?A = "allchunks st"
  from assms obtain order cs where
    cw: "computewindows P ?A (randomizationrange st)
           (placechunks P ?A (size_t P (sweep * corpus_totalframes st)) order) = Inr cs"
    and ru: "randomizeutterancemode P sweep (size_t P (sweep * corpus_totalframes st))
             (st\<lparr>currentsweep := sweep, randomizedchunks := cs\<rparr>) = Some (Inr st')"
    by (auto elim: rerandomize_Inr)
  let ?W = "initpositionchunkwindows ?A cs" and ?refs0 = "initutterancerefs P ?A cs"
  from ru obtain refs1 n refs where
    r1: "randomizeutterances (rawrand P (unsigned_int (unsigned_int sweep + 1))) ?A cs ?W
           [0..<length ?refs0] ?refs0 0 = Some (Inr (refs1, n))"
    and pl: "placeutterances P ?A cs (size_t P (sweep * corpus_totalframes st)) refs1 = Inr refs"
    and ve: "verifyutterances cs ?W refs = Inr ()"
    and st': "st' = st\<lparr>currentsweep := sweep, randomizedchunks := cs,
                   positionchunkwindows := ?W, randomizedutterancerefs := refs,
                   randomizedutteranceposmap := buildposmap refs\<rparr>"
    by (rule randomizeutterancemode_Inr) simp
  let ?c = "\<lambda>k. chunk_numutterances ?A (cs ! k)"
  let ?n = "length cs"
  note pc = computewindows_placechunks [OF cw size_t_le]
  have len: "length refs = (\<Sum>j<?n. ?c j)"
  proof -
    have "length ?refs0 = (\<Sum>j<?n. ?c j)"
      unfolding initutterancerefs_def by (rule length_concat_blocks) simp
    with randomizeutterances_facts [OF r1] placeutterances_chunkindex [OF pl]
    show ?thesis by simp
  qed
  have pb: "\<And>k. k < ?n \<Longrightarrow> utteranceposbegin (cs ! k) = (\<Sum>j<k. ?c j)"
  proof -
    fix k assume k: "k < ?n"
    with pc(1) have k': "k < length order" by simp
    have "(\<Sum>j<k. numutterances (?A ! (order ! j))) = (\<Sum>j<k. ?c j)"
      by (rule sum.cong) (use k' pc(2) in \<open>simp_all add: chunk_numutterances_def\<close>)
    with pc(3) [OF k'] show "utteranceposbegin (cs ! k) = (\<Sum>j<k. ?c j)" by simp
  qed
  have valid: "utterancesvalid cs ?W refs"
    using ve by (rule verifyutterances_valid)
  show ?thesis
  proof (intro allI impI)
    fix k i
    assume k: "k < length (randomizedchunks st')"
      and i: "utteranceposbegin (randomizedchunks st' ! k) \<le> i \<and>
              i < utteranceposend (allchunks st') (randomizedchunks st' ! k)"
    from k st' have kn: "k < ?n" by simp
    from i st' pb [OF kn] have lo: "(\<Sum>j<k. ?c j) \<le> i" and hi: "i < (\<Sum>j<k. ?c j) + ?c k"
      by (simp_all add: utteranceposend_def)
    have gl: "\<And>k. k < ?n \<Longrightarrow>
        length (replicate (utteranceposend ?A (cs ! k) - utteranceposbegin (cs ! k)) k) = ?c k"
      by (simp add: utteranceposend_def)
    from lo hi have off: "i - (\<Sum>j<k. ?c j) < ?c k" by arith
    have w: "i < length ?W" "?W ! i = k"
      using concat_blocks_nth [OF kn lo hi gl] off by (simp_all add: initpositionchunkwindows_def utteranceposend_def)
    have "length ?W = (\<Sum>j<?n. ?c j)"
      unfolding initpositionchunkwindows_def by (rule length_concat_blocks) (rule gl)
    with w(1) len have il: "i < length refs" by simp
    with valid w(2) have "isvalidforthisposition cs k (refs ! i)"
      by (auto simp: utterancesvalid_iff)
    with il w(2) st' show "i < length (randomizedutterancerefs st') \<and> positionchunkwindows st' ! i = k \<and>
           isvalidforthisposition (randomizedchunks st') k (randomizedutterancerefs st' ! i)"
      by simp
  qed
qed

subsection \<open>Window validity of frame positions: facts\<close>

lemma foreach_counting_all:
  assumes "foreach [0..<n] body (t0::nat) = Inr t'"
    and "\<And>i t t'. i < n \<Longrightarrow> body i t = Inr t' \<Longrightarrow>
           t' = t + c i \<and> (\<forall>u. t \<le> u \<and> u < t' \<longrightarrow> Q u)"
  shows "t' = t0 + (\<Sum>j<n. c j) \<and> (\<forall>u. t0 \<le> u \<and> u < t' \<longrightarrow> Q u)"
  using assms
proof (induction n arbitrary: t')
  case 0
  then show ?case by auto
next
  case (Suc n)
  from Suc.prems(1) [unfolded foreach_upt_Suc]
  obtain t1 where a: "foreach [0..<n] body t0 = Inr t1" and b: "body n t1 = Inr t'"
    by (auto split: sum.splits)
  have ih: "t1 = t0 + (\<Sum>j<n. c j) \<and> (\<forall>u. t0 \<le> u \<and> u < t1 \<longrightarrow> Q u)"
    by (rule Suc.IH [OF a]) (rule Suc.prems(2), simp_all)
  from Suc.prems(2) [OF _ b] have st: "t' = t1 + c n \<and> (\<forall>u. t1 \<le> u \<and> u < t' \<longrightarrow> Q u)" by simp
  show ?case
  proof (intro conjI allI impI)
    show "t' = t0 + (\<Sum>j<Suc n. c j)" using ih st by simp
  next
    fix u assume "t0 \<le> u \<and> u < t'"
    then show "Q u" using ih st by (cases "u < t1") auto
  qed
qed

lemma foreach_counting:
  assumes "foreach [0..<n] body (t0::nat) = Inr t'"
    and "\<And>i t t'. i < n \<Longrightarrow> body i t = Inr t' \<Longrightarrow>
           t' = t + c i \<and> (\<forall>u. t \<le> u \<and> u < t' \<longrightarrow> Q i u)"
  shows "t' = t0 + (\<Sum>j<n. c j) \<and>
         (\<forall>k<n. \<forall>u. t0 + (\<Sum>j<k. c j) \<le> u \<and> u < t0 + (\<Sum>j<k. c j) + c k \<longrightarrow> Q k u)"
  using assms
proof (induction n arbitrary: t')
  case 0
  then show ?case by auto
next
  case (Suc n)
  from Suc.prems(1) [unfolded foreach_upt_Suc]
  obtain t1 where a: "foreach [0..<n] body t0 = Inr t1" and b: "body n t1 = Inr t'"
    by (auto split: sum.splits)
  have ih: "t1 = t0 + (\<Sum>j<n. c j) \<and>
         (\<forall>k<n. \<forall>u. t0 + (\<Sum>j<k. c j) \<le> u \<and> u < t0 + (\<Sum>j<k. c j) + c k \<longrightarrow> Q k u)"
    by (rule Suc.IH [OF a]) (rule Suc.prems(2), simp_all)
  from Suc.prems(2) [OF _ b] have st: "t' = t1 + c n \<and> (\<forall>u. t1 \<le> u \<and> u < t' \<longrightarrow> Q n u)" by simp
  show ?case
  proof (intro conjI allI impI)
    show "t' = t0 + (\<Sum>j<Suc n. c j)" using ih st by simp
  next
    fix k u assume k: "k < Suc n"
      and u: "t0 + (\<Sum>j<k. c j) \<le> u \<and> u < t0 + (\<Sum>j<k. c j) + c k"
    show "Q k u"
    proof (cases "k = n")
      case True
      with u ih st show ?thesis by simp
    next
      case False
      with k have "k < n" by simp
      with ih u show ?thesis by blast
    qed
  qed
qed

lemma check_frame_Inr:
  "check_frame cs F i m t = Inr t' \<Longrightarrow> t' = t + 1 \<and> (\<forall>u. t \<le> u \<and> u < t' \<longrightarrow> framewithin cs F i u)"
  by (auto simp: check_frame_def framewithin_def le_less_Suc_eq split: if_splits)

lemma check_utterance_Inr:
  assumes "check_utterance cs F c i k t = Inr t'"
  shows "t' = t + uttnumframes (utteranceset c ! k) \<and> (\<forall>u. t \<le> u \<and> u < t' \<longrightarrow> framewithin cs F i u)"
  using foreach_counting_all [OF assms [unfolded check_utterance_def],
      where c = "\<lambda>m. 1" and Q = "framewithin cs F i"] check_frame_Inr
  by simp

lemma check_chunk_Inr:
  assumes "check_chunk A cs F i t = Inr t'"
  shows "t' = t + sum_list (map uttnumframes (utteranceset (A ! uttchunkdata (cs ! i)))) \<and>
         (\<forall>u. t \<le> u \<and> u < t' \<longrightarrow> framewithin cs F i u)"
proof -
  let ?c = "A ! uttchunkdata (cs ! i)"
  have s: "sum_list (map uttnumframes (utteranceset ?c))
           = (\<Sum>k<numutterances ?c. uttnumframes (utteranceset ?c ! k))"
    by (simp add: sum_list_sum_nth numutterances_def atLeast0LessThan)
  from foreach_counting_all [OF assms [unfolded check_chunk_def Let_def],
      where c = "\<lambda>k. uttnumframes (utteranceset ?c ! k)" and Q = "framewithin cs F i"]
    check_utterance_Inr
  show ?thesis unfolding s by simp
qed

lemma checkframes_Inr:
  assumes "checkframes A cs F = Inr tend" and "k < length cs"
    and "(\<Sum>j<k. sum_list (map uttnumframes (utteranceset (A ! uttchunkdata (cs ! j))))) \<le> u"
    and "u < (\<Sum>j<k. sum_list (map uttnumframes (utteranceset (A ! uttchunkdata (cs ! j)))))
              + sum_list (map uttnumframes (utteranceset (A ! uttchunkdata (cs ! k))))"
  shows "framewithin cs F k u"
  using foreach_counting [OF assms(1) [unfolded checkframes_def],
      where c = "\<lambda>j. sum_list (map uttnumframes (utteranceset (A ! uttchunkdata (cs ! j))))"
        and Q = "framewithin cs F"] check_chunk_Inr assms(2-4)
  by simp

lemma swap_at_twice:
  "i < length v \<Longrightarrow> j < length v \<Longrightarrow> swap_at i j (swap_at i j v) = v"
  by (rule nth_equalityI) (simp_all add: swap_at_def nth_list_update)

lemma swap_at_other:
  "u \<noteq> i \<Longrightarrow> u \<noteq> j \<Longrightarrow> swap_at i j v ! u = v ! u"
  by (simp add: swap_at_def)

lemma swap_at_framesvalid:
  assumes "framesvalid cs T F"
    and "isframepositionvalid cs T (swap_at t tswap F) t"
    and "isframepositionvalid cs T (swap_at t tswap F) tswap"
  shows "framesvalid cs T (swap_at t tswap F)"
  unfolding framesvalid_iff
proof (intro allI impI)
  fix u assume u: "u < length (swap_at t tswap F)"
  show "isframepositionvalid cs T (swap_at t tswap F) u"
  proof (cases "u = t \<or> u = tswap")
    case True
    with assms(2,3) show ?thesis by blast
  next
    case False
    then have e: "swap_at t tswap F ! u = F ! u" by (simp add: swap_at_other)
    from assms(1) u have "isframepositionvalid cs T F u"
      by (simp add: framesvalid_iff)
    then show ?thesis
      unfolding isframepositionvalid_def Let_def e .
  qed
qed

lemma pickframe_facts:
  assumes "pickframe raw cs T t pwb pwe pb pe F n = Some y"
  shows "t < length F \<longrightarrow> (\<forall>F' n'. y = Inr (F', n') \<longrightarrow>
           length F' = length F \<and> n < n' \<and> (framesvalid cs T F \<longrightarrow> framesvalid cs T F'))"
proof (rule pickframe.raw_induct [where P = "\<lambda>raw cs T t pwb pwe pb pe F n y.
          t < length F \<longrightarrow> (\<forall>F' n'. y = Inr (F', n') \<longrightarrow>
           length F' = length F \<and> n < n' \<and> (framesvalid cs T F \<longrightarrow> framesvalid cs T F'))", OF _ assms],
       goal_cases)
  case (1 f raw cs T t pwb pwe pb pe F n y)
  note IH = 1(1) and body = 1(2)
  show ?case
  proof (intro impI allI)
    fix F' n'
    assume t: "t < length F" and y: "y = Inr (F', n')"
    from body y obtain tswap where r: "rand (raw n) pb pe = Inr tswap"
      by (auto split: sum.splits)
    show "length F' = length F \<and> n < n' \<and> (framesvalid cs T F \<longrightarrow> framesvalid cs T F')"
    proof (cases "tswap \<ge> length F \<or> tswap \<ge> length T")
      case True
      with body r y show ?thesis by simp
    next
      case inb: False
      then have sw: "swap_at t tswap (swap_at t tswap F) = F"
        using t by (simp add: swap_at_twice)
      let ?X = "f raw cs T t pwb pwe pb pe F (Suc n)"
      let ?ok = "isframepositionvalid cs T (swap_at t tswap F) t \<and>
                 isframepositionvalid cs T (swap_at t tswap F) tswap"
      from body have b1: "(if tswap \<ge> length F \<or> tswap \<ge> length T
          then Some (Inl (undefined_behaviour ''randomizedframerefs[tswap]''))
          else if fr_chunkindex (F ! tswap) < pwb \<or> fr_chunkindex (F ! tswap) \<ge> pwe
          then ?X
          else if T ! tswap \<ge> length cs
          then Some (Inl (undefined_behaviour ''randomizedchunks[targetchunkindex]''))
          else if fr_chunkindex (F ! t) < windowbegin (cs ! (T ! tswap)) \<or>
                  fr_chunkindex (F ! t) \<ge> windowend (cs ! (T ! tswap))
          then ?X
          else if ?ok
          then Some (Inr (swap_at t tswap F, Suc n))
          else f raw cs T t pwb pwe pb pe (swap_at t tswap (swap_at t tswap F)) (Suc n)) = Some y"
        by (simp only: r sum.case)
      have "?X = Some y \<or> (\<exists>e. y = Inl e) \<or> (y = Inr (swap_at t tswap F, Suc n) \<and> ?ok)"
      proof (cases "fr_chunkindex (F ! tswap) < pwb \<or> fr_chunkindex (F ! tswap) \<ge> pwe")
        case True
        with b1 inb have "?X = Some y" by simp
        then show ?thesis by blast
      next
        case c1: False
        show ?thesis
        proof (cases "T ! tswap \<ge> length cs")
          case True
          with b1 inb c1 have "Some (Inl (undefined_behaviour ''randomizedchunks[targetchunkindex]'')) = Some y"
            by simp
          then show ?thesis by blast
        next
          case c2: False
          show ?thesis
          proof (cases "fr_chunkindex (F ! t) < windowbegin (cs ! (T ! tswap)) \<or>
                  fr_chunkindex (F ! t) \<ge> windowend (cs ! (T ! tswap))")
            case True
            with b1 inb c1 c2 have "?X = Some y" by simp
            then show ?thesis by blast
          next
            case c3: False
            show ?thesis
            proof (cases ?ok)
              case True
              with b1 inb c1 c2 c3 have "Some (Inr (swap_at t tswap F, Suc n)) = Some y"
                by simp
              with True show ?thesis by blast
            next
              case False
              with b1 inb c1 c2 c3 have "f raw cs T t pwb pwe pb pe (swap_at t tswap (swap_at t tswap F)) (Suc n) = Some y"
                by simp
              then show ?thesis unfolding sw by blast
            qed
          qed
        qed
      qed
      then consider
          (retry) "f raw cs T t pwb pwe pb pe F (Suc n) = Some y"
        | (err) "\<exists>e. y = Inl e"
        | (swapped) "y = Inr (swap_at t tswap F, Suc n)"
                 "isframepositionvalid cs T (swap_at t tswap F) t"
                 "isframepositionvalid cs T (swap_at t tswap F) tswap"
        by blast
      then show ?thesis
      proof cases
        case retry
        from IH [OF retry] t y
        have "length F' = length F \<and> Suc n < n' \<and> (framesvalid cs T F \<longrightarrow> framesvalid cs T F')"
          by blast
        then show ?thesis by simp
      next
        case err
        with y show ?thesis by auto
      next
        case swapped
        from swapped(1) y have e: "F' = swap_at t tswap F" "n' = Suc n" by simp_all
        from swap_at_framesvalid [OF _ swapped(2,3)]
        have "framesvalid cs T F \<longrightarrow> framesvalid cs T (swap_at t tswap F)" by blast
        with e show ?thesis by simp
      qed
    qed
  qed
qed

lemma randomizeframes_facts:
  assumes "randomizeframes P raw A cs T sweepts ts F n = Some (Inr (F', n'))"
    and "\<forall>t \<in> set ts. t < length F"
  shows "length F' = length F \<and> (framesvalid cs T F \<longrightarrow> framesvalid cs T F')"
  using assms
proof (induction ts arbitrary: F n)
  case Nil
  then show ?case by simp
next
  case (Cons t rest)
  from Cons.prems(1) obtain pwb pwe pb pe F1 n1 where
    p: "pickframe raw cs T t pwb pwe pb pe F n = Some (Inr (F1, n1))"
    and r: "randomizeframes P raw A cs T sweepts rest F1 n1 = Some (Inr (F', n'))"
    by (auto split: sum.splits option.splits prod.splits)
  from pickframe_facts [OF p] Cons.prems(2)
  have f1: "length F1 = length F" "framesvalid cs T F \<longrightarrow> framesvalid cs T F1" by auto
  from Cons.IH [OF r] Cons.prems(2) f1 show ?case by auto
qed

subsection \<open>The utterances on the timeline: facts\<close>

lemma sum_list_take_mono:
  fixes xs :: "nat list"
  shows "i \<le> j \<Longrightarrow> sum_list (take i xs) \<le> sum_list (take j xs)"
proof (induction xs arbitrary: i j)
  case Nil
  then show ?case by simp
next
  case (Cons x xs)
  show ?case
  proof (cases i)
    case 0
    then show ?thesis by simp
  next
    case (Suc i')
    with Cons.prems obtain j' where j: "j = Suc j'" "i' \<le> j'" by (cases j) auto
    with Suc Cons.IH [of i' j'] show ?thesis by simp
  qed
qed

lemma sum_list_take_le:
  fixes xs :: "nat list"
  shows "sum_list (take i xs) \<le> sum_list xs"
  using sum_list_take_mono [of i "length xs" xs] by (cases "i \<le> length xs") simp_all

lemma size_t_wrapped_small:
  assumes "x < 2 * (SIZE_MAX P + 1)" and "SIZE_MAX P + 1 \<le> x"
  shows "size_t P x = x - (SIZE_MAX P + 1)"
proof -
  let ?M = "SIZE_MAX P + 1"
  from assms have "x - ?M < ?M" by arith
  then have "(x - ?M) mod ?M = x - ?M" by simp
  moreover from assms(2) have "x mod ?M = (x - ?M) mod ?M"
    by (simp add: le_mod_geq)
  ultimately show ?thesis by (simp add: size_t_def)
qed

lemma timeline_start_unwrapped:
  assumes g: "g = size_t P (s + p)" and p: "p \<le> T" and T: "T \<le> SIZE_MAX P"
    and s: "s \<le> ts" and ts: "ts \<le> SIZE_MAX P" and ge: "ts \<le> g"
  shows "g = s + p"
proof (cases "s + p \<le> SIZE_MAX P")
  case True
  with g show ?thesis by (simp add: size_t_less)
next
  case False
  then have lo: "SIZE_MAX P + 1 \<le> s + p" by simp
  from p T s ts have hi: "s + p < 2 * (SIZE_MAX P + 1)" by arith
  from size_t_wrapped_small [OF hi lo] g have "g = s + p - (SIZE_MAX P + 1)" by simp
  with p T s have "g < ts" using lo by arith
  with ge show ?thesis by simp
qed

lemma timeline_first:
  fixes refs :: "utteranceref list"
  assumes tl: "\<forall>i<length refs. globalts (refs ! i)
                  = size_t P (s + sum_list (map numframes (take i refs)))"
    and sum: "sum_list (map numframes refs) \<le> T" and T: "T \<le> SIZE_MAX P"
    and s: "s \<le> ts" and ts: "ts \<le> SIZE_MAX P"
    and f: "find (\<lambda>u. ts \<le> globalts u) refs = Some u"
  shows "u \<in> set refs \<and> ts \<le> globalts u \<and>
         (\<forall>v \<in> set refs. ts \<le> globalts v \<longrightarrow> globalts u \<le> globalts v)"
proof -
  let ?pre = "\<lambda>i. sum_list (map numframes (take i refs))"
  have pre_le: "?pre i \<le> T" for i
    using sum_list_take_le [of i "map numframes refs"] sum by (simp add: take_map)
  have pre_mono: "i \<le> j \<Longrightarrow> ?pre i \<le> ?pre j" for i j
    using sum_list_take_mono [of i j "map numframes refs"] by (simp add: take_map)
  have unw: "globalts (refs ! i) = s + ?pre i" if "i < length refs" "ts \<le> globalts (refs ! i)" for i
    using timeline_start_unwrapped [OF _ pre_le T s ts that(2)] tl that(1) by blast
  from f obtain p where p: "p < length refs" "ts \<le> globalts (refs ! p)" "u = refs ! p"
    and first: "\<forall>j<p. \<not> ts \<le> globalts (refs ! j)"
    by (auto simp: find_Some_iff)
  have least: "globalts u \<le> globalts v" if v: "v \<in> set refs" "ts \<le> globalts v" for v
  proof -
    from v(1) obtain q where q: "q < length refs" "v = refs ! q"
      by (auto simp: in_set_conv_nth)
    with v(2) first have "p \<le> q" by (meson not_le_imp_less)
    then have "?pre p \<le> ?pre q" by (rule pre_mono)
    with unw [OF p(1,2)] unw [of q] q v(2) p(3) show ?thesis by simp
  qed
  from p least show ?thesis by auto
qed

lemma sum_list_swap:
  fixes ys :: "nat list"
  assumes "i < length ys" and "j < length ys"
  shows "sum_list (ys[i := ys ! j, j := ys ! i]) = sum_list ys"
proof (cases "i = j")
  case True
  then show ?thesis by simp
next
  case False
  from assms(1) have a: "ys ! i \<le> sum_list ys"
    by (simp add: member_le_sum_list)
  from assms have s1: "sum_list (ys[i := ys ! j]) = sum_list ys + ys ! j - ys ! i"
    by (simp add: sum_list_update)
  from assms False have "sum_list (ys[i := ys ! j, j := ys ! i])
      = sum_list (ys[i := ys ! j]) + ys ! i - ys ! j"
    by (simp add: sum_list_update)
  with s1 a show ?thesis by simp
qed

lemma sum_list_map_swap_at:
  fixes f :: "'a \<Rightarrow> nat"
  assumes "i < length xs" and "j < length xs"
  shows "sum_list (map f (swap_at i j xs)) = sum_list (map f xs)"
proof -
  have "map f (swap_at i j xs) = (map f xs)[i := map f xs ! j, j := map f xs ! i]"
    using assms by (simp add: swap_at_def map_update)
  with sum_list_swap [of i "map f xs" j] assms show ?thesis by simp
qed

lemma randomshuffle_facts:
  fixes g :: "'a \<Rightarrow> nat"
  assumes "randomshuffle P v seed = Inr v'"
  shows "length v' = length v \<and> set v' = set v \<and> sum_list (map g v') = sum_list (map g v)"
proof -
  from assms have f: "foreach [0..<length v]
             (\<lambda>i v. case rand (rawrand P (unsigned_int seed) i) 0 (length v) of
                      Inl e \<Rightarrow> Inl e
                    | Inr irand \<Rightarrow> Inr (if irand = i then v else swap_at i irand v)) v = Inr v'"
    by (simp add: randomshuffle_def split: if_splits)
  show ?thesis
  proof (rule foreach_preserves [OF f, where Q = "\<lambda>s. length s = length v \<and> set s = set v \<and>
           sum_list (map g s) = sum_list (map g v)"])
    show "length v = length v \<and> set v = set v \<and> sum_list (map g v) = sum_list (map g v)" by simp
  next
    fix i s s'
    assume i: "i \<in> set [0..<length v]"
      and b: "(case rand (rawrand P (unsigned_int seed) i) 0 (length s) of
                 Inl e \<Rightarrow> Inl e
               | Inr irand \<Rightarrow> Inr (if irand = i then s else swap_at i irand s)) = Inr s'"
      and q: "length s = length v \<and> set s = set v \<and> sum_list (map g s) = sum_list (map g v)"
    from b obtain irand where r: "rand (rawrand P (unsigned_int seed) i) 0 (length s) = Inr irand"
      and s': "s' = (if irand = i then s else swap_at i irand s)"
      by (cases "rand (rawrand P (unsigned_int seed) i) 0 (length s)") simp_all
    from rand_bounds [OF r] have ir: "irand < length s" by simp
    from i q have il: "i < length s" by simp
    have "length s' = length s" "set s' = set s" "sum_list (map g s') = sum_list (map g s)"
      using s' il ir by (simp_all add: swap_at_set sum_list_map_swap_at)
    with q show "length s' = length v \<and> set s' = set v \<and> sum_list (map g s') = sum_list (map g v)"
      by simp
  qed
qed

subsection \<open>The frames of the randomized utterances: facts\<close>

lemma swap_utterancerefs_sum:
  fixes nf :: "nat \<Rightarrow> nat \<Rightarrow> nat"
  assumes "i < length refs" and "j < length refs"
  shows "sum_list (map (\<lambda>u. nf (chunkindex u) (utteranceindex u)) (swap_utterancerefs i j refs))
       = sum_list (map (\<lambda>u. nf (chunkindex u) (utteranceindex u)) refs)"
proof -
  let ?F = "\<lambda>u. nf (chunkindex u) (utteranceindex u)"
  have "map ?F (swap_utterancerefs i j refs) = (map ?F refs)[i := map ?F refs ! j, j := map ?F refs ! i]"
    using assms by (simp add: swap_utterancerefs_def map_update)
  with sum_list_swap [of i "map ?F refs" j] assms show ?thesis by simp
qed

lemma pickutterance_sum:
  fixes nf :: "nat \<Rightarrow> nat \<Rightarrow> nat"
  assumes "pickutterance raw cs W i posbegin posend refs n = Some y"
  shows "i < length refs \<longrightarrow> (\<forall>refs' n'. y = Inr (refs', n') \<longrightarrow>
           sum_list (map (\<lambda>u. nf (chunkindex u) (utteranceindex u)) refs')
           = sum_list (map (\<lambda>u. nf (chunkindex u) (utteranceindex u)) refs))"
proof (rule pickutterance.raw_induct [where P = "\<lambda>raw cs W i posbegin posend refs n y.
          i < length refs \<longrightarrow> (\<forall>refs' n'. y = Inr (refs', n') \<longrightarrow>
           sum_list (map (\<lambda>u. nf (chunkindex u) (utteranceindex u)) refs')
           = sum_list (map (\<lambda>u. nf (chunkindex u) (utteranceindex u)) refs))", OF _ assms],
       goal_cases)
  case (1 f raw cs W i posbegin posend refs n y)
  note IH = 1(1) and body = 1(2)
  show ?case
  proof (cases "rand (raw n) posbegin posend")
    case (Inl e)
    with body show ?thesis by auto
  next
    case (Inr j)
    show ?thesis
    proof (cases "i = j \<or> j \<ge> length refs \<or> j \<ge> length W")
      case True
      with Inr body show ?thesis by (auto split: if_splits)
    next
      case False
      show ?thesis
      proof (cases "isvalidforthisposition cs (W ! i) (refs ! j) \<and>
                    isvalidforthisposition cs (W ! j) (refs ! i)")
        case True
        with False Inr body have "y = Inr (swap_utterancerefs i j refs, Suc n)"
          by auto
        with False show ?thesis by (auto simp: swap_utterancerefs_sum)
      next
        case nv: False
        with False Inr body
        have "f raw cs W i posbegin posend refs (Suc n) = Some y"
          by (auto split: if_splits)
        from IH [OF this] show ?thesis by auto
      qed
    qed
  qed
qed

lemma randomizeutterances_sum:
  fixes nf :: "nat \<Rightarrow> nat \<Rightarrow> nat"
  assumes "randomizeutterances raw A cs W is refs n = Some (Inr (refs', n'))"
    and "\<forall>i \<in> set is. i < length refs"
  shows "sum_list (map (\<lambda>u. nf (chunkindex u) (utteranceindex u)) refs')
       = sum_list (map (\<lambda>u. nf (chunkindex u) (utteranceindex u)) refs)"
  using assms
proof (induction "is" arbitrary: refs n)
  case Nil
  then show ?case by simp
next
  case (Cons i rest)
  from Cons.prems(1) obtain pb pe refs1 n1 where
    p: "pickutterance raw cs W i pb pe refs n = Some (Inr (refs1, n1))"
    and r: "randomizeutterances raw A cs W rest refs1 n1 = Some (Inr (refs', n'))"
    by (auto split: sum.splits option.splits prod.splits)
  from pickutterance_facts [OF p] have l: "length refs1 = length refs" by simp
  from pickutterance_sum [OF p, of nf] Cons.prems(2)
  have s1: "sum_list (map (\<lambda>u. nf (chunkindex u) (utteranceindex u)) refs1)
          = sum_list (map (\<lambda>u. nf (chunkindex u) (utteranceindex u)) refs)" by simp
  have "\<forall>i \<in> set rest. i < length refs1" using Cons.prems(2) l by simp
  from Cons.IH [OF r this] s1 show ?case by simp
qed

lemma sum_list_concat_blocks:
  fixes g :: "nat \<Rightarrow> nat list"
  shows "sum_list (concat (map g [0..<n])) = (\<Sum>k<n. sum_list (g k))"
  by (induction n) simp_all

lemma initutterancerefs_sum:
  "sum_list (map (\<lambda>u. uttnumframes (utteranceset (A ! uttchunkdata (cs ! chunkindex u)) ! utteranceindex u))
        (initutterancerefs P A cs))
   = (\<Sum>k<length cs. sum_list (map uttnumframes (utteranceset (A ! uttchunkdata (cs ! k)))))"
proof -
  let ?F = "\<lambda>u. uttnumframes (utteranceset (A ! uttchunkdata (cs ! chunkindex u)) ! utteranceindex u)"
  have blk: "map (\<lambda>xa. uttnumframes (utteranceset (A ! uttchunkdata
                     (cs ! chunkindex (new_utteranceref P k xa))) ! utteranceindex (new_utteranceref P k xa)))
               [0..<chunk_numutterances A (cs ! k)]
           = map uttnumframes (utteranceset (A ! uttchunkdata (cs ! k)))" for k
    by (rule nth_equalityI)
       (simp_all add: chunk_numutterances_def numutterances_def new_utteranceref_def)
  have "map ?F (initutterancerefs P A cs)
      = concat (map (\<lambda>k. map uttnumframes (utteranceset (A ! uttchunkdata (cs ! k)))) [0..<length cs])"
    by (simp add: initutterancerefs_def map_concat comp_def blk)
  then show ?thesis by (simp add: sum_list_concat_blocks)
qed

lemma timeline_consistent_iff:
  "timeline_consistent P st \<longleftrightarrow>
     framemode st \<or>
     ((\<forall>i < length (randomizedutterancerefs st).
          globalts (randomizedutterancerefs st ! i)
            = size_t P (currentsweep st * corpus_totalframes st
                        + sum_list (map numframes (take i (randomizedutterancerefs st))))) \<and>
      sum_list (map numframes (randomizedutterancerefs st)) \<le> corpus_totalframes st)"
  by (auto simp: timeline_consistent_def list_all_iff)

lemma rerandomize_timeline:
  assumes r: "rerandomize P sweep st = Some (Inr st')" and c: "corpus_consistent P st"
  shows "timeline_consistent P st' \<and> corpus_consistent P st' \<and> currentsweep st' = sweep \<and>
         corpus_totalframes st' = corpus_totalframes st \<and> framemode st' = framemode st"
proof -
  let ?A = "allchunks st" and ?T = "corpus_totalframes st"
  let ?sweepts = "size_t P (sweep * ?T)"
  from r obtain order cs where
    sh: "randomshuffle P [0..<length ?A] sweep = Inr order"
    and cw: "computewindows P ?A (randomizationrange st) (placechunks P ?A ?sweepts order) = Inr cs"
    and m: "(if framemode st then randomizeframemode P sweep ?sweepts
             (st\<lparr>currentsweep := sweep, randomizedchunks := cs\<rparr>)
          else randomizeutterancemode P sweep ?sweepts
             (st\<lparr>currentsweep := sweep, randomizedchunks := cs\<rparr>)) = Some (Inr st')"
    by (rule rerandomize_Inr)
  show ?thesis
  proof (cases "framemode st")
    case True
    from m True obtain F where
      "st' = st\<lparr>currentsweep := sweep, randomizedchunks := cs, randomizedframerefs := F\<rparr>"
      by (auto elim: randomizeframemode_Inr)
    with c True show ?thesis
      by (simp add: timeline_consistent_def corpus_consistent_def)
  next
    case False
    let ?W = "initpositionchunkwindows ?A cs" and ?refs0 = "initutterancerefs P ?A cs"
    let ?nf = "\<lambda>ci ui. uttnumframes (utteranceset (?A ! uttchunkdata (cs ! ci)) ! ui)"
    let ?F = "\<lambda>u. ?nf (chunkindex u) (utteranceindex u)"
    from m False have ru: "randomizeutterancemode P sweep ?sweepts
             (st\<lparr>currentsweep := sweep, randomizedchunks := cs\<rparr>) = Some (Inr st')" by simp
    from ru obtain refs1 n refs where
      r1: "randomizeutterances (rawrand P (unsigned_int (unsigned_int sweep + 1))) ?A cs ?W
             [0..<length ?refs0] ?refs0 0 = Some (Inr (refs1, n))"
      and pl: "placeutterances P ?A cs ?sweepts refs1 = Inr refs"
      and st': "st' = st\<lparr>currentsweep := sweep, randomizedchunks := cs,
                     positionchunkwindows := ?W, randomizedutterancerefs := refs,
                     randomizedutteranceposmap := buildposmap refs\<rparr>"
      by (rule randomizeutterancemode_Inr) simp
    note pf = placeutterances_facts [OF pl size_t_le]
    have nfmap: "map numframes refs = map ?F refs1"
      by (rule nth_equalityI) (use pf in simp_all)
    have s1: "sum_list (map ?F refs1) = sum_list (map ?F ?refs0)"
      by (rule randomizeutterances_sum [OF r1, of ?nf]) simp
    have s2: "sum_list (map ?F ?refs0)
        = (\<Sum>k<length cs. sum_list (map uttnumframes (utteranceset (?A ! uttchunkdata (cs ! k)))))"
      by (rule initutterancerefs_sum)
    note pc = computewindows_placechunks [OF cw size_t_le]
    note sf = randomshuffle_facts [OF sh, of "\<lambda>k. totalframes (?A ! k)"]
    have ord: "order ! k < length ?A" if "k < length order" for k
    proof -
      from that have "order ! k \<in> set order" by simp
      with sf show ?thesis by simp
    qed
    have s3: "(\<Sum>k<length cs. sum_list (map uttnumframes (utteranceset (?A ! uttchunkdata (cs ! k)))))
        = (\<Sum>k<length order. totalframes (?A ! (order ! k)))"
    proof (rule sum.cong)
      show "{..<length cs} = {..<length order}" using pc(1) by simp
    next
      fix k assume "k \<in> {..<length order}"
      then have k: "k < length order" by simp
      from ord [OF k] c have "totalframes (?A ! (order ! k))
          = sum_list (map uttnumframes (utteranceset (?A ! (order ! k))))"
        by (simp add: corpus_consistent_def list_all_length)
      with pc(2) [OF k] show "sum_list (map uttnumframes (utteranceset (?A ! uttchunkdata (cs ! k))))
          = totalframes (?A ! (order ! k))" by simp
    qed
    have s4: "(\<Sum>k<length order. totalframes (?A ! (order ! k)))
        = sum_list (map (\<lambda>k. totalframes (?A ! k)) order)"
      by (simp add: sum_list_sum_nth atLeast0LessThan)
    have s5: "sum_list (map (\<lambda>k. totalframes (?A ! k)) [0..<length ?A]) = sum_list (map totalframes ?A)"
    proof -
      have "map (\<lambda>k. totalframes (?A ! k)) [0..<length ?A] = map totalframes ?A"
        by (rule nth_equalityI) simp_all
      then show ?thesis by simp
    qed
    from nfmap s1 s2 s3 s4 sf s5 c have total: "sum_list (map numframes refs) = ?T"
      by (simp add: corpus_consistent_def)
    have tl: "globalts (refs ! i) = size_t P (sweep * ?T + sum_list (map numframes (take i refs)))"
      if "i < length refs" for i
    proof -
      from that pf(1) have "i < length refs1" by simp
      from pf(2) [OF this] show ?thesis by (simp add: size_t_add_left)
    qed
    from st' tl total c False show ?thesis
      by (simp add: timeline_consistent_iff corpus_consistent_def)
  qed
qed

lemma lazyrandomization_timeline:
  assumes "timeline_consistent P st" and "corpus_consistent P st"
    and "lazyrandomization P ts st = Some (Inr (sweep, st'))"
  shows "timeline_consistent P st' \<and> corpus_consistent P st' \<and> currentsweep st' = sweep \<and>
         corpus_totalframes st' = corpus_totalframes st \<and> framemode st' = framemode st"
proof (cases "sweep = currentsweep st")
  case True
  with lazyrandomization_Inr [OF assms(3)] assms(1,2) show ?thesis by simp
next
  case False
  with lazyrandomization_Inr [OF assms(3)] have "rerandomize P sweep st = Some (Inr st')"
    by auto
  from rerandomize_timeline [OF this assms(2)] show ?thesis .
qed

lemma framemode_validity:
  assumes "rerandomize P sweep st = Some (Inr st')" and "framemode st" and "corpus_consistent P st"
  shows "\<forall>k < length (randomizedchunks st'). \<forall>t.
           (\<Sum>j<k. chunk_numframes (allchunks st') (randomizedchunks st' ! j)) \<le> t \<and>
           t < (\<Sum>j<k. chunk_numframes (allchunks st') (randomizedchunks st' ! j))
               + chunk_numframes (allchunks st') (randomizedchunks st' ! k) \<longrightarrow>
           framewithin (randomizedchunks st') (randomizedframerefs st') k t \<and>
           chunk_globalts (randomizedchunks st' ! k)
             = size_t P (sweep * corpus_totalframes st
                 + (\<Sum>j<k. chunk_numframes (allchunks st') (randomizedchunks st' ! j)))"
proof -
  let ?A = "allchunks st" and ?T = "corpus_totalframes st"
  let ?sweepts = "size_t P (sweep * ?T)"
  from assms(1) obtain order cs where
    sh: "randomshuffle P [0..<length ?A] sweep = Inr order"
    and cw: "computewindows P ?A (randomizationrange st) (placechunks P ?A ?sweepts order) = Inr cs"
    and m: "(if framemode st then randomizeframemode P sweep ?sweepts
             (st\<lparr>currentsweep := sweep, randomizedchunks := cs\<rparr>)
          else randomizeutterancemode P sweep ?sweepts
             (st\<lparr>currentsweep := sweep, randomizedchunks := cs\<rparr>)) = Some (Inr st')"
    by (rule rerandomize_Inr)
  from m assms(2) have "randomizeframemode P sweep ?sweepts
             (st\<lparr>currentsweep := sweep, randomizedchunks := cs\<rparr>) = Some (Inr st')" by simp
  then obtain F tend where
    ck: "checkframes ?A cs F = Inr tend"
    and st': "st' = st\<lparr>currentsweep := sweep, randomizedchunks := cs, randomizedframerefs := F\<rparr>"
    by (rule randomizeframemode_Inr) simp
  note pc = computewindows_placechunks [OF cw size_t_le]
  note sf = randomshuffle_facts [OF sh, of "\<lambda>k. totalframes (?A ! k)"]
  have ord: "order ! k < length ?A" if "k < length order" for k
  proof -
    from that have "order ! k \<in> set order" by simp
    with sf show ?thesis by simp
  qed
  have nf: "chunk_numframes ?A (cs ! k)
      = sum_list (map uttnumframes (utteranceset (?A ! uttchunkdata (cs ! k))))"
    and nf2: "chunk_numframes ?A (cs ! k) = totalframes (?A ! (order ! k))"
    if "k < length cs" for k
  proof -
    from that pc(1) have k: "k < length order" by simp
    from ord [OF k] assms(3) have "totalframes (?A ! (order ! k))
        = sum_list (map uttnumframes (utteranceset (?A ! (order ! k))))"
      by (simp add: corpus_consistent_def list_all_length)
    with pc(2) [OF k] show "chunk_numframes ?A (cs ! k)
      = sum_list (map uttnumframes (utteranceset (?A ! uttchunkdata (cs ! k))))"
      by (simp add: chunk_numframes_def)
    from pc(2) [OF k] show "chunk_numframes ?A (cs ! k) = totalframes (?A ! (order ! k))"
      by (simp add: chunk_numframes_def)
  qed
  show ?thesis
  proof (intro allI impI)
    fix k t
    assume k: "k < length (randomizedchunks st')"
      and t: "(\<Sum>j<k. chunk_numframes (allchunks st') (randomizedchunks st' ! j)) \<le> t \<and>
           t < (\<Sum>j<k. chunk_numframes (allchunks st') (randomizedchunks st' ! j))
               + chunk_numframes (allchunks st') (randomizedchunks st' ! k)"
    from k st' have kn: "k < length cs" by simp
    have se: "(\<Sum>j<k. chunk_numframes ?A (cs ! j))
        = (\<Sum>j<k. sum_list (map uttnumframes (utteranceset (?A ! uttchunkdata (cs ! j)))))"
      by (rule sum.cong) (use kn nf in simp_all)
    have se2: "(\<Sum>j<k. chunk_numframes ?A (cs ! j)) = (\<Sum>j<k. totalframes (?A ! (order ! j)))"
      by (rule sum.cong) (use kn nf2 in simp_all)
    from t st' have lo: "(\<Sum>j<k. sum_list (map uttnumframes (utteranceset (?A ! uttchunkdata (cs ! j))))) \<le> t"
      and hi: "t < (\<Sum>j<k. sum_list (map uttnumframes (utteranceset (?A ! uttchunkdata (cs ! j)))))
                + sum_list (map uttnumframes (utteranceset (?A ! uttchunkdata (cs ! k))))"
      using se nf [OF kn] by simp_all
    have fw: "framewithin cs F k t"
      by (rule checkframes_Inr [OF ck kn lo hi])
    from kn pc(1) have "k < length order" by simp
    from pc(4) [OF this] se2
    have gt: "chunk_globalts (cs ! k) = size_t P (sweep * ?T + (\<Sum>j<k. chunk_numframes ?A (cs ! j)))"
      by (simp add: size_t_add_left)
    from fw gt st' show "framewithin (randomizedchunks st') (randomizedframerefs st') k t \<and>
           chunk_globalts (randomizedchunks st' ! k)
             = size_t P (sweep * corpus_totalframes st
                 + (\<Sum>j<k. chunk_numframes (allchunks st') (randomizedchunks st' ! j)))"
      by simp
  qed
qed

subsection \<open>The corpus that the constructor builds: facts\<close>

lemma remember_totalframes:
  assumes "remember le utt s = Inr s'"
    and "scan_totalframes s = sum_list (map uttnumframes (scan_utteranceset s))"
  shows "scan_totalframes s' = sum_list (map uttnumframes (scan_utteranceset s'))"
  using assms by (auto simp: remember_def Let_def split: if_splits)

lemma scanfile_totalframes:
  assumes "scanfile P labels lat udim i f s = Inr (s', d)"
    and "scan_totalframes s = sum_list (map uttnumframes (scan_utteranceset s))"
  shows "scan_totalframes s' = sum_list (map uttnumframes (scan_utteranceset s'))"
proof -
  from assms(1) consider
      (same) "scan_totalframes s' = scan_totalframes s" "scan_utteranceset s' = scan_utteranceset s"
    | (rem) le utt s0 where "remember le utt s0 = Inr s'"
        "scan_totalframes s0 = scan_totalframes s" "scan_utteranceset s0 = scan_utteranceset s"
    unfolding scanfile_def Let_def
    by (fastforce split: option.splits if_splits sum.splits prod.splits)
  then show ?thesis
  proof cases
    case same
    with assms(2) show ?thesis by simp
  next
    case rem
    from remember_totalframes [OF rem(1)] rem(2,3) assms(2) show ?thesis by simp
  qed
qed

lemma scanfiles_totalframes:
  assumes "scanfiles P labels lat udim i fs s = Inr (s', d)"
    and "scan_totalframes s = sum_list (map uttnumframes (scan_utteranceset s))"
  shows "scan_totalframes s' = sum_list (map uttnumframes (scan_utteranceset s'))"
  using assms
proof (induction fs arbitrary: i s d)
  case Nil
  then show ?case by simp
next
  case (Cons f fs)
  from Cons.prems(1) obtain s1 d1 d2 where
    a: "scanfile P labels lat udim i f s = Inr (s1, d1)"
    and b: "scanfiles P labels lat udim (Suc i) fs s1 = Inr (s', d2)"
    by (auto split: sum.splits prod.splits)
  from Cons.IH [OF b scanfile_totalframes [OF a Cons.prems(2)]] show ?case .
qed

lemma distribute_facts:
  assumes "distribute P utts chunks = Inr cs"
    and "list_all (\<lambda>c. totalframes c = sum_list (map uttnumframes (utteranceset c))) chunks"
  shows "list_all (\<lambda>c. totalframes c = sum_list (map uttnumframes (utteranceset c))) cs \<and>
         sum_list (map totalframes cs)
           = sum_list (map totalframes chunks) + sum_list (map uttnumframes utts)"
  using assms
proof (induction utts arbitrary: chunks)
  case Nil
  then show ?case by simp
next
  case (Cons utt utts)
  let ?wf = "\<lambda>c. totalframes c = sum_list (map uttnumframes (utteranceset c))"
  define chunks1 where "chunks1 = (if chunks = [] \<or> totalframes (last chunks) > chunkframes
                        \<or> numutterances (last chunks) \<ge> maxutterancesperchunk P
                     then chunks @ [virginchunk] else chunks)"
  from Cons.prems(1) obtain c where
    pb: "push_back utt (last chunks1) = Inr c"
    and d: "distribute P utts (butlast chunks1 @ [c]) = Inr cs"
    by (auto simp: chunks1_def Let_def split: sum.splits)
  have ne: "chunks1 \<noteq> []" by (simp add: chunks1_def)
  have wf1: "list_all ?wf chunks1" and s1: "sum_list (map totalframes chunks1) = sum_list (map totalframes chunks)"
    using Cons.prems(2) by (simp_all add: chunks1_def virginchunk_def)
  from ne have split: "chunks1 = butlast chunks1 @ [last chunks1]" by simp
  from wf1 have "list_all ?wf (butlast chunks1 @ [last chunks1])"
    by (subst (asm) split)
  then have wfb: "list_all ?wf (butlast chunks1)" and wfl: "?wf (last chunks1)"
    by simp_all
  from pb have c: "totalframes c = totalframes (last chunks1) + uttnumframes utt"
    "utteranceset c = utteranceset (last chunks1) @ [utt]"
    by (auto simp: push_back_def split: if_splits)
  with wfl have wfc: "?wf c" by simp
  have wf2: "list_all ?wf (butlast chunks1 @ [c])" using wfb wfc by simp
  have "sum_list (map totalframes chunks1)
      = sum_list (map totalframes (butlast chunks1)) + totalframes (last chunks1)"
    by (subst split) simp
  with c s1 have s2: "sum_list (map totalframes (butlast chunks1 @ [c]))
      = sum_list (map totalframes chunks) + uttnumframes utt" by simp
  from Cons.IH [OF d wf2] s2 show ?case by simp
qed

lemma constructor_consistent:
  assumes "minibatchutterancesource P infiles labels vd udim rrange lat wt fmode = Inr (st, d)"
  shows "timeline_consistent P st \<and>
         (corpus_totalframes st \<le> SIZE_MAX P \<longrightarrow> corpus_consistent P st)"
proof -
  from assms obtain s d0 chunks where
    sc: "scanfiles P labels lat udim 0 infiles scan_start = Inr (s, d0)"
    and di: "distribute P (scan_utteranceset s) [] = Inr chunks"
    and A: "allchunks st = chunks" and T: "corpus_totalframes st = scan_totalframes s"
    and R: "randomizedutterancerefs st = []"
    by (auto simp: minibatchutterancesource_def split: sum.splits prod.splits if_splits)
  have "scan_totalframes s = sum_list (map uttnumframes (scan_utteranceset s))"
    by (rule scanfiles_totalframes [OF sc]) (simp add: scan_start_def)
  with distribute_facts [OF di] A T R show ?thesis
    by (simp add: timeline_consistent_def corpus_consistent_def)
qed

subsection \<open>\<^verbatim>\<open>firstvalidglobalts\<close>\<close>

text \<open>
  C7. Let the corpus be as the constructor leaves it, the cached utterance positions lie
  on the timeline of the cached sweep, and the argument be a \<^verbatim>\<open>size_t\<close>. Whenever
  \<^verbatim>\<open>firstvalidglobalts\<close> returns, the object it leaves is the one that
  \<^verbatim>\<open>lazyrandomization\<close> makes for the sweep of the argument, with the utterance positions
  of that sweep on its timeline. In frame mode the result is the argument. In utterance
  mode the result is the smallest start time recorded for that sweep that is not before
  the argument; when every recorded start time is before the argument, it is the end
  time of the last utterance position. The call returns whenever the randomization
  returns (and, in utterance mode, there is an utterance), in particular when the sweep
  is already cached.
\<close>

theorem firstvalidglobalts_result:
  assumes "corpus_consistent P st" and "timeline_consistent P st" and "ts \<le> SIZE_MAX P"
  shows "(\<forall>r st'. firstvalidglobalts P ts st = Some (Inr (r, st')) \<longrightarrow>
            lazyrandomization P ts st = Some (Inr (ts div corpus_totalframes st, st')) \<and>
            currentsweep st' = ts div corpus_totalframes st \<and>
            timeline_consistent P st' \<and>
            (framemode st \<longrightarrow> r = ts) \<and>
            (\<not> framemode st \<longrightarrow>
               (\<exists>u \<in> set (randomizedutterancerefs st').
                   globalts u = r \<and> ts \<le> r \<and>
                   (\<forall>v \<in> set (randomizedutterancerefs st'). ts \<le> globalts v \<longrightarrow> r \<le> globalts v))
               \<or> ((\<forall>v \<in> set (randomizedutterancerefs st'). globalts v < ts) \<and>
                   randomizedutterancerefs st' \<noteq> [] \<and>
                   r = globalte P (last (randomizedutterancerefs st')))))
       \<and> (\<forall>sweep st'. lazyrandomization P ts st = Some (Inr (sweep, st')) \<and>
            (framemode st \<or> randomizedutterancerefs st' \<noteq> []) \<longrightarrow>
            (\<exists>r. firstvalidglobalts P ts st = Some (Inr (r, st'))))
       \<and> (corpus_totalframes st \<noteq> 0 \<and> ts div corpus_totalframes st = currentsweep st \<and>
            (framemode st \<or> randomizedutterancerefs st \<noteq> []) \<longrightarrow>
            (\<exists>r. firstvalidglobalts P ts st = Some (Inr (r, st))))"
proof (intro conjI allI impI)
  fix r st'
  assume fv: "firstvalidglobalts P ts st = Some (Inr (r, st'))"
  then obtain sweep st1 where lr: "lazyrandomization P ts st = Some (Inr (sweep, st1))"
    by (auto simp: firstvalidglobalts_def split: option.splits sum.splits)
  from lazyrandomization_Inr [OF lr] have T0: "corpus_totalframes st \<noteq> 0"
    and sw: "sweep = ts div corpus_totalframes st" by simp_all
  from lazyrandomization_timeline [OF assms(2,1) lr]
  have tc: "timeline_consistent P st1" and cc: "corpus_consistent P st1"
    and cs: "currentsweep st1 = sweep" and TT: "corpus_totalframes st1 = corpus_totalframes st"
    and fm: "framemode st1 = framemode st" by simp_all
  have st': "st' = st1"
    using fv lr by (auto simp: firstvalidglobalts_def split: if_splits option.splits)
  show "lazyrandomization P ts st = Some (Inr (ts div corpus_totalframes st, st'))"
    using lr sw st' by simp
  show "currentsweep st' = ts div corpus_totalframes st" using cs sw st' by simp
  show "timeline_consistent P st'" using tc st' by simp
  {
    assume "framemode st"
    with fv lr fm show "r = ts" by (simp add: firstvalidglobalts_def)
  }
  {
    assume nf: "\<not> framemode st"
    let ?refs = "randomizedutterancerefs st'"
    show "(\<exists>u \<in> set ?refs. globalts u = r \<and> ts \<le> r \<and> (\<forall>v \<in> set ?refs. ts \<le> globalts v \<longrightarrow> r \<le> globalts v))
          \<or> ((\<forall>v \<in> set ?refs. globalts v < ts) \<and> ?refs \<noteq> [] \<and> r = globalte P (last ?refs))"
    proof (cases "find (\<lambda>u. ts \<le> globalts u) (randomizedutterancerefs st1)")
      case None
      with fv lr fm nf have e: "randomizedutterancerefs st1 \<noteq> []"
          "r = globalte P (last (randomizedutterancerefs st1))"
        by (auto simp: firstvalidglobalts_def split: if_splits)
      from None have "\<forall>v \<in> set (randomizedutterancerefs st1). globalts v < ts"
        by (auto simp: find_None_iff)
      with e st' show ?thesis by simp
    next
      case (Some u)
      with fv lr fm nf have e: "r = globalts u"
        by (auto simp: firstvalidglobalts_def)
      from tc fm nf cs TT have
        tl: "\<forall>i<length (randomizedutterancerefs st1). globalts (randomizedutterancerefs st1 ! i)
               = size_t P (sweep * corpus_totalframes st
                    + sum_list (map numframes (take i (randomizedutterancerefs st1))))"
        and sum: "sum_list (map numframes (randomizedutterancerefs st1)) \<le> corpus_totalframes st"
        by (simp_all add: timeline_consistent_iff)
      from assms(1) have T: "corpus_totalframes st \<le> SIZE_MAX P"
        by (simp add: corpus_consistent_def)
      have s: "sweep * corpus_totalframes st \<le> ts" unfolding sw by simp
      from timeline_first [OF tl sum T s assms(3) Some] e st' show ?thesis by auto
    qed
  }
next
  fix sweep st'
  assume a: "lazyrandomization P ts st = Some (Inr (sweep, st')) \<and>
            (framemode st \<or> randomizedutterancerefs st' \<noteq> [])"
  then have lr: "lazyrandomization P ts st = Some (Inr (sweep, st'))" by simp
  from lazyrandomization_timeline [OF assms(2,1) lr] have fm: "framemode st' = framemode st" by simp
  from a lr fm show "\<exists>r. firstvalidglobalts P ts st = Some (Inr (r, st'))"
    by (auto simp: firstvalidglobalts_def split: option.splits)
next
  assume a: "corpus_totalframes st \<noteq> 0 \<and> ts div corpus_totalframes st = currentsweep st \<and>
            (framemode st \<or> randomizedutterancerefs st \<noteq> [])"
  then have lr: "lazyrandomization P ts st = Some (Inr (currentsweep st, st))"
    by (simp add: lazyrandomization_def)
  with a show "\<exists>r. firstvalidglobalts P ts st = Some (Inr (r, st))"
    by (auto simp: firstvalidglobalts_def split: option.splits)
qed


theorem firstvalidglobalts_result_witness:
  "corpus_consistent example_platform example_randomized
   \<and> timeline_consistent example_platform example_randomized
   \<and> \<not> framemode example_randomized
   \<and> firstvalidglobalts example_platform 400 example_randomized = Some (Inr (430, example_randomized1))
   \<and> firstvalidglobalts example_platform 120 example_randomized = Some (Inr (250, example_randomized))
   \<and> firstvalidglobalts example_platform 300 example_randomized = Some (Inr (330, example_randomized))
   \<and> firstvalidglobalts example_platform 18446744073709551610 example_randomized
        = Some (Inr (314, example_randomized_last))
   \<and> firstvalidglobalts example_platform 120 (example_randomized\<lparr>framemode := True\<rparr>)
         = Some (Inr (120, example_randomized\<lparr>framemode := True\<rparr>))"
proof -
  let ?u = example_randomized and ?f = "example_randomized\<lparr>framemode := True\<rparr>"
  note cc = example_corpus_consistent and tc = example_timeline_consistent
  have f: "\<not> framemode ?u" "corpus_totalframes ?u = 330" "currentsweep ?u = 0"
      "randomizedutterancerefs ?u = example_utterancerefs"
      "randomizedutterancerefs example_randomized1 = example_utterancerefs1"
      "randomizedutterancerefs example_randomized_last = example_utterancerefs_last"
    by (simp_all add: example_randomized_def example_randomized1_def example_randomized_last_def
          example_source_def)
  have refs: "example_utterancerefs \<noteq> []" "example_utterancerefs1 \<noteq> []"
      "example_utterancerefs_last \<noteq> []"
      "globalte example_platform (last example_utterancerefs) = 330"
      "globalte example_platform (last example_utterancerefs_last) = 314"
    by (simp_all add: example_utterancerefs_def example_utterancerefs1_def
          example_utterancerefs_last_def globalte_def size_t_example)
  have sm: "(400::nat) \<le> SIZE_MAX example_platform" "(120::nat) \<le> SIZE_MAX example_platform"
      "(300::nat) \<le> SIZE_MAX example_platform"
      "(18446744073709551610::nat) \<le> SIZE_MAX example_platform"
    by (simp_all add: SIZE_MAX_def example_platform_def)
  have ccf: "corpus_consistent example_platform ?f"
    using cc by (simp add: corpus_consistent_def)
  have tcf: "timeline_consistent example_platform ?f"
    by (simp add: timeline_consistent_def)
  note t400 = firstvalidglobalts_result [OF cc tc sm(1)]
  note t120 = firstvalidglobalts_result [OF cc tc sm(2)]
  note t300 = firstvalidglobalts_result [OF cc tc sm(3)]
  note tlast = firstvalidglobalts_result [OF cc tc sm(4)]
  note tf = firstvalidglobalts_result [OF ccf tcf sm(2)]
  have a: "firstvalidglobalts example_platform 400 ?u = Some (Inr (430, example_randomized1))"
  proof -
    have "\<exists>r. firstvalidglobalts example_platform 400 ?u = Some (Inr (r, example_randomized1))"
      by (rule t400 [THEN conjunct2, THEN conjunct1, rule_format, of 1])
         (simp add: example_lazyrandomization1 f refs)
    then obtain r where
      r: "firstvalidglobalts example_platform 400 ?u = Some (Inr (r, example_randomized1))" by blast
    with t400 [THEN conjunct1, rule_format, OF r] f have
      "(\<exists>u \<in> set example_utterancerefs1. globalts u = r \<and> 400 \<le> r \<and>
          (\<forall>v \<in> set example_utterancerefs1. 400 \<le> globalts v \<longrightarrow> r \<le> globalts v))
       \<or> (\<forall>v \<in> set example_utterancerefs1. globalts v < 400)"
      by auto
    then have "r = 430"
      by (auto simp: example_utterancerefs1_def)
    with r show ?thesis by simp
  qed
  have b: "firstvalidglobalts example_platform 120 ?u = Some (Inr (250, ?u))"
  proof -
    from t120 f refs obtain r where
      r: "firstvalidglobalts example_platform 120 ?u = Some (Inr (r, ?u))" by auto
    with t120 f have
      "(\<exists>u \<in> set example_utterancerefs. globalts u = r \<and> 120 \<le> r \<and>
          (\<forall>v \<in> set example_utterancerefs. 120 \<le> globalts v \<longrightarrow> r \<le> globalts v))
       \<or> (\<forall>v \<in> set example_utterancerefs. globalts v < 120)"
      by auto
    then have "r = 250"
      by (auto simp: example_utterancerefs_def)
    with r show ?thesis by simp
  qed
  have c: "firstvalidglobalts example_platform 300 ?u = Some (Inr (330, ?u))"
  proof -
    from t300 f refs obtain r where
      r: "firstvalidglobalts example_platform 300 ?u = Some (Inr (r, ?u))" by auto
    with t300 f have
      "(\<exists>u \<in> set example_utterancerefs. globalts u = r \<and> 300 \<le> r)
       \<or> r = globalte example_platform (last example_utterancerefs)"
      by auto
    then have "r = 330" unfolding refs(4)
      by (auto simp: example_utterancerefs_def)
    with r show ?thesis by simp
  qed
  have d: "firstvalidglobalts example_platform 18446744073709551610 ?u
        = Some (Inr (314, example_randomized_last))"
  proof -
    have "\<exists>r. firstvalidglobalts example_platform 18446744073709551610 ?u
            = Some (Inr (r, example_randomized_last))"
      by (rule tlast [THEN conjunct2, THEN conjunct1, rule_format, of 55899224465786520])
         (simp add: example_lazyrandomization_last f refs)
    then obtain r where
      r: "firstvalidglobalts example_platform 18446744073709551610 ?u
            = Some (Inr (r, example_randomized_last))" by blast
    with tlast [THEN conjunct1, rule_format, OF r] f have
      "(\<exists>u \<in> set example_utterancerefs_last. globalts u = r \<and> 18446744073709551610 \<le> r)
       \<or> r = globalte example_platform (last example_utterancerefs_last)"
      by auto
    then have "r = 314" unfolding refs(5)
      by (auto simp: example_utterancerefs_last_def)
    with r show ?thesis by simp
  qed
  have e: "firstvalidglobalts example_platform 120 ?f = Some (Inr (120, ?f))"
  proof -
    from tf f obtain r where
      r: "firstvalidglobalts example_platform 120 ?f = Some (Inr (r, ?f))" by auto
    with tf have "r = 120" by auto
    with r show ?thesis by simp
  qed
  from cc tc f(1) a b c d e show ?thesis by simp
qed

subsection \<open>\<^verbatim>\<open>getbatch\<close> with a time that is not an utterance boundary\<close>

text \<open>
  C6. In utterance mode, when the randomization step of \<^verbatim>\<open>getbatch\<close> has passed and the
  requested \<^verbatim>\<open>globalts\<close> is not the recorded start time of an utterance position of
  the sweep, \<^verbatim>\<open>getbatch\<close> throws the \<^verbatim>\<open>logic_error\<close> about the utterance boundary:
  no batch is returned.
\<close>

theorem getbatch_invalid_globalts:
  assumes "randomization_consistent st" and "\<not> framemode st"
    and "lazyrandomization P ts st = Some (Inr (sweep, st'))"
    and "ts \<notin> globalts ` set (randomizedutterancerefs st')"
  shows "getbatch P io ts framesrequested st
           = Some (Inl (logic_error ''getbatch: invalid 'globalts' parameter; must match an existing utterance boundary''))"
proof -
  note c = lazyrandomization_consistent [OF assms(1,3)]
  have "randomizedutteranceposmap st' ts = None"
  proof (cases "randomizedutteranceposmap st' ts")
    case None
    then show ?thesis .
  next
    case (Some p)
    with c have "buildposmap (randomizedutterancerefs st') ts = Some p"
      by (simp add: randomization_consistent_def)
    from buildposmap_Some [OF this] assms(4) show ?thesis by auto
  qed
  with assms(2,3) c show ?thesis
    by (simp add: getbatch_def getbatch_utterancemode_def)
qed

theorem getbatch_invalid_globalts_witness:
  "randomization_consistent example_randomized \<and> \<not> framemode example_randomized
   \<and> lazyrandomization example_platform 50 example_randomized = Some (Inr (0, example_randomized))
   \<and> 50 \<notin> globalts ` set (randomizedutterancerefs example_randomized)
   \<and> getbatch example_platform world_ok 50 200 example_randomized
       = Some (Inl (logic_error ''getbatch: invalid 'globalts' parameter; must match an existing utterance boundary''))"
proof -
  have h2: "\<not> framemode example_randomized"
    by (simp add: example_randomized_def example_source_def)
  have h3: "lazyrandomization example_platform 50 example_randomized = Some (Inr (0, example_randomized))"
    by (simp add: example_lazyrandomization_cached)
  have h4: "50 \<notin> globalts ` set (randomizedutterancerefs example_randomized)"
    by (simp add: example_randomized_def example_source_def example_utterancerefs_def)
  from getbatch_invalid_globalts [OF example_consistent h2 h3 h4, of world_ok 200]
    example_consistent h2 h3 h4
  show ?thesis by simp
qed

subsection \<open>\<^verbatim>\<open>getbatch\<close> returns at least one utterance\<close>

text \<open>
  C5. A batch that \<^verbatim>\<open>getbatch\<close> returns in utterance mode consists of the positions
  \<open>spos..epos-1\<close> with \<open>spos < epos\<close> (never zero utterances), it starts with the
  utterance whose recorded start is the requested \<^verbatim>\<open>globalts\<close>, and it has at least the
  frames of that utterance; when that utterance alone has \<open>framesrequested\<close> frames or
  more, the batch is exactly that utterance, in full.
\<close>

theorem getbatch_at_least_one_utterance:
  assumes "randomization_consistent st" and "\<not> framemode st"
    and "getbatch P io ts fr st = Some (Inr (b, st'))"
  shows "fst (positions b) < snd (positions b)
       \<and> fst (positions b) < length (randomizedutterancerefs st')
       \<and> globalts (randomizedutterancerefs st' ! fst (positions b)) = ts
       \<and> numframes (randomizedutterancerefs st' ! fst (positions b)) \<le> numcols (feat b)
       \<and> (fr \<le> numframes (randomizedutterancerefs st' ! fst (positions b)) \<longrightarrow>
             snd (positions b) = Suc (fst (positions b)) \<and>
             numcols (feat b) = numframes (randomizedutterancerefs st' ! fst (positions b)))"
proof -
  from assms obtain spos epos where
    p: "positions b = (spos, epos)" "spos < epos"
      "spos < length (randomizedutterancerefs st')"
      "globalts (randomizedutterancerefs st' ! spos) = ts"
    and s: "numcols (feat b) = (\<Sum>p = spos..<epos. numframes (randomizedutterancerefs st' ! p))"
    and e: "epos = Suc spos \<or> numcols (feat b) < fr"
    by (rule getbatch_selection)
  from p(2) s have "numcols (feat b) = numframes (randomizedutterancerefs st' ! spos)
      + (\<Sum>p = Suc spos..<epos. numframes (randomizedutterancerefs st' ! p))"
    by (simp add: sum.atLeast_Suc_lessThan)
  with p s e show ?thesis by auto
qed

theorem getbatch_at_least_one_utterance_witness:
  "randomization_consistent example_randomized \<and> \<not> framemode example_randomized
   \<and> getbatch example_platform world_ok 100 1 example_randomized
       = Some (Inr (example_batch\<lparr>feat := matrix_resize 39 150, positions := (1, 2)\<rparr>, example_loaded))
   \<and> globalts (randomizedutterancerefs example_loaded ! 1) = 100
   \<and> numframes (randomizedutterancerefs example_loaded ! 1) = 150
   \<and> numcols (feat (example_batch\<lparr>feat := matrix_resize 39 150, positions := (1, 2)\<rparr>)) = 150"
proof -
  let ?b = "example_batch\<lparr>feat := matrix_resize 39 150, positions := (1, 2)\<rparr>"
  have h2: "\<not> framemode example_randomized"
    by (simp add: example_randomized_def example_source_def)
  have p: "positions ?b = (1, 2)" by simp
  have n: "numframes (randomizedutterancerefs example_loaded ! 1) = 150"
    by (simp add: example_loaded_def example_randomized_def example_source_def example_utterancerefs_def)
  from getbatch_at_least_one_utterance [OF example_consistent h2 example_getbatch_second]
  have "globalts (randomizedutterancerefs example_loaded ! 1) = 100
      \<and> numcols (feat ?b) = numframes (randomizedutterancerefs example_loaded ! 1)"
    unfolding p using n by simp
  with example_consistent h2 example_getbatch_second n show ?thesis by simp
qed

subsection \<open>How many utterances \<^verbatim>\<open>getbatch\<close> returns\<close>

text \<open>
  The corpus of the scenario is the one the constructor builds from the three files, and
  on this platform the randomization keeps the utterances in the order 100, 150, 80.
  There \<^verbatim>\<open>getbatch (0, 200)\<close> returns the positions \<open>0..0\<close>: one utterance, 100 frames,
  not two utterances with 250 frames.
\<close>

theorem getbatch_scenario_counterexample:
  "minibatchutterancesource example_platform example_infiles [] 39 10 1000000 no_latticesource [] False
     = Inr (example_source, [])
   \<and> getbatch example_platform world_ok 0 200 example_source = Some (Inr (example_batch, example_loaded))
   \<and> map numframes (randomizedutterancerefs example_loaded) = [100, 150, 80]
   \<and> positions example_batch = (0, 1)
   \<and> numcols (feat example_batch) = 100"
  using example_source_constructed [of 10] example_getbatch
  by (simp add: example_batch_def matrix_resize_def example_loaded_def example_randomized_def
        example_source_def example_utterancerefs_def)

text \<open>
  C1, as amended. In utterance mode a returned batch starts at the position \<open>spos\<close> whose
  recorded start is the requested \<^verbatim>\<open>globalts\<close>, always contains that utterance, and goes
  on with the following positions for as long as the frame total including the next
  utterance stays below \<open>framesrequested\<close>: the batch is the positions \<open>spos..epos-1\<close>,
  its frame count is the sum of their frame counts, it is below \<open>framesrequested\<close>
  unless the batch is the first utterance alone, and the utterance at \<open>epos\<close>, when there
  is one, would have brought the total to \<open>framesrequested\<close> or more.
\<close>

theorem getbatch_adds_while_below_budget:
  assumes "randomization_consistent st" and "\<not> framemode st"
    and "getbatch P io ts fr st = Some (Inr (b, st'))"
  shows "fst (positions b) < snd (positions b)
       \<and> globalts (randomizedutterancerefs st' ! fst (positions b)) = ts
       \<and> numcols (feat b)
           = (\<Sum>p = fst (positions b)..<snd (positions b). numframes (randomizedutterancerefs st' ! p))
       \<and> (snd (positions b) = Suc (fst (positions b)) \<or> numcols (feat b) < fr)
       \<and> (snd (positions b) < corpus_numutterances st' \<longrightarrow>
             fr \<le> numcols (feat b) + numframes (randomizedutterancerefs st' ! snd (positions b)))"
proof -
  from assms obtain spos epos where
    "positions b = (spos, epos)" "spos < epos"
    "globalts (randomizedutterancerefs st' ! spos) = ts"
    "numcols (feat b) = (\<Sum>p = spos..<epos. numframes (randomizedutterancerefs st' ! p))"
    "epos = Suc spos \<or> numcols (feat b) < fr"
    "epos < corpus_numutterances st' \<longrightarrow>
           fr \<le> numcols (feat b) + numframes (randomizedutterancerefs st' ! epos)"
    by (rule getbatch_selection)
  then show ?thesis by simp
qed

theorem getbatch_adds_while_below_budget_witness:
  "randomization_consistent example_source \<and> \<not> framemode example_source
   \<and> getbatch example_platform world_ok 0 200 example_source = Some (Inr (example_batch, example_loaded))
   \<and> positions example_batch = (0, 1)
   \<and> numcols (feat example_batch) = numframes (randomizedutterancerefs example_loaded ! 0)
   \<and> 1 < corpus_numutterances example_loaded
   \<and> 200 \<le> numcols (feat example_batch) + numframes (randomizedutterancerefs example_loaded ! 1)"
proof -
  have h1: "randomization_consistent example_source"
    by (simp add: randomization_consistent_def example_source_def buildposmap_def)
  have h2: "\<not> framemode example_source"
    by (simp add: example_source_def)
  have p: "positions example_batch = (0, 1)" "fst (positions example_batch) = 0"
    "snd (positions example_batch) = 1"
    by (simp_all add: example_batch_def)
  have n: "1 < corpus_numutterances example_loaded"
    by (simp add: example_loaded_def example_randomized_def example_source_def)
  from getbatch_adds_while_below_budget [OF h1 h2 example_getbatch]
  have "numcols (feat example_batch) = numframes (randomizedutterancerefs example_loaded ! 0)
      \<and> 200 \<le> numcols (feat example_batch) + numframes (randomizedutterancerefs example_loaded ! 1)"
    unfolding p(2,3) using n by simp
  with h1 h2 example_getbatch p(1) n show ?thesis by simp
qed

subsection \<open>The chunk pager\<close>

lemma example_call_ok:
  "requiredata_call world_ok 0 (example_randomized\<lparr>featdim := fd, ioclock := t\<rparr>)
     = (None, example_loaded\<lparr>chunksinram := 0, ioclock := Suc t\<rparr>)"
  if "fd = 0 \<or> fd = 39"
  using that
  by (auto simp: requiredata_call_def requiredata_def requiredata_try_def numutterances_def
        isinram_def matrix_empty_def matrix_resize_def
        example_randomized_def example_source_def example_chunk_def
        example_loaded_def world_ok_def upt_eval to_numeral)

lemma example_call_readfails:
  "requiredata_call world_readfails 0 (example_randomized\<lparr>featdim := fd, ioclock := t\<rparr>)
     = (Some (runtime_error ''htkfeatreader: read failed''),
        example_randomized\<lparr>featdim := 39, ioclock := Suc t\<rparr>)"
  if "fd = 0 \<or> fd = 39"
  using that
  by (auto simp: requiredata_call_def requiredata_def requiredata_try_def releasedata_def
        numutterances_def isinram_def matrix_empty_def matrix_resize_def
        example_randomized_def example_source_def example_chunk_def
        world_readfails_def upt_eval to_numeral)

lemma example_call_flaky:
  "requiredata_call world_flaky 0 (example_randomized\<lparr>featdim := fd, ioclock := t\<rparr>)
     = (if t < 2 then requiredata_call world_readfails 0 (example_randomized\<lparr>featdim := fd, ioclock := t\<rparr>)
        else requiredata_call world_ok 0 (example_randomized\<lparr>featdim := fd, ioclock := t\<rparr>))"
  by (simp add: requiredata_call_def world_flaky_def)

lemma example_randomized_fields:
  "example_randomized = example_randomized\<lparr>featdim := 0, ioclock := 0\<rparr>"
  by (simp add: example_randomized_def example_source_def)


lemma example_runs:
  "runs 3 (requiredata_call world_flaky 0) (example_randomized\<lparr>featdim := 0, ioclock := 0\<rparr>)
     = example_loaded\<lparr>chunksinram := 0, ioclock := 3\<rparr>"
  "runs 5 (requiredata_call world_readfails 0) (example_randomized\<lparr>featdim := 0, ioclock := 0\<rparr>)
     = example_randomized\<lparr>featdim := 39, ioclock := 5\<rparr>"
  "runs (Suc 0) (requiredata_call world_ok 0) (example_randomized\<lparr>featdim := 0, ioclock := 0\<rparr>)
     = example_loaded\<lparr>chunksinram := 0, ioclock := 1\<rparr>"
  by (simp_all add: eval_nat_numeral example_call_flaky example_call_readfails example_call_ok)

lemma example_outcomes:
  "\<forall>m<2. fst (requiredata_call world_flaky 0
      (runs m (requiredata_call world_flaky 0) (example_randomized\<lparr>featdim := 0, ioclock := 0\<rparr>))) \<noteq> None"
  "fst (requiredata_call world_flaky 0
      (runs 2 (requiredata_call world_flaky 0) (example_randomized\<lparr>featdim := 0, ioclock := 0\<rparr>))) = None"
  "\<forall>m<5. fst (requiredata_call world_readfails 0
      (runs m (requiredata_call world_readfails 0) (example_randomized\<lparr>featdim := 0, ioclock := 0\<rparr>))) \<noteq> None"
  "fst (requiredata_call world_readfails 0
      (runs 4 (requiredata_call world_readfails 0) (example_randomized\<lparr>featdim := 0, ioclock := 0\<rparr>)))
     = Some (runtime_error ''htkfeatreader: read failed'')"
  "fst (requiredata_call world_ok 0
      (runs 0 (requiredata_call world_ok 0) (example_randomized\<lparr>featdim := 0, ioclock := 0\<rparr>))) = None"
  by (simp_all add: eval_nat_numeral All_less_Suc example_call_flaky example_call_readfails example_call_ok)

text \<open>
  C8. \<^verbatim>\<open>requirerandomizedchunk\<close> and \<^verbatim>\<open>releaserandomizedchunk\<close>:
  (1) a chunk index outside \<open>[windowbegin, windowend)\<close> is a \<^verbatim>\<open>logic_error\<close> and the
  object is left as it was (nothing is loaded);
  (2) inside the window, a resident chunk gives \<open>false\<close>, again with the object (and the
  I/O clock) unchanged;
  (3) inside the window, a chunk that is not resident is loaded by calls of
  \<^verbatim>\<open>requiredata\<close>, each answered by the outside world at its tick of the clock: when the
  first \<open>n\<close> calls throw and call \<open>n + 1\<close> does not, for \<open>n < 5\<close>, the result is \<open>true\<close> and the
  object is the one that these \<open>n + 1\<close> calls leave, with one more chunk counted in RAM;
  when five calls in a row throw, the exception of the fifth is propagated with the
  object as the five calls leave it;
  (4) in case (3) the chunk is resident after \<open>true\<close>, after at least one and at most five
  calls, and not resident after the exception, which takes exactly five calls;
  (5) releasing a chunk that is not resident changes nothing.
\<close>

theorem requirerandomizedchunk_release_cases:
  "(k < wbegin \<or> wend \<le> k \<longrightarrow>
      requirerandomizedchunk io k wbegin wend st
        = (Inl (logic_error ''requirerandomizedchunk: requested utterance outside in-memory chunk range''), st))
   \<and> (wbegin \<le> k \<and> k < wend \<and> k < length (randomizedchunks st) \<and>
        isinram (allchunks st ! uttchunkdata (randomizedchunks st ! k)) \<longrightarrow>
      requirerandomizedchunk io k wbegin wend st = (Inr False, st))
   \<and> (wbegin \<le> k \<and> k < wend \<and> k < length (randomizedchunks st) \<and>
        \<not> isinram (allchunks st ! uttchunkdata (randomizedchunks st ! k)) \<longrightarrow>
      (\<forall>n<5. (\<forall>m<n. fst (requiredata_call io (uttchunkdata (randomizedchunks st ! k))
                          (runs m (requiredata_call io (uttchunkdata (randomizedchunks st ! k))) st)) \<noteq> None) \<and>
              fst (requiredata_call io (uttchunkdata (randomizedchunks st ! k))
                     (runs n (requiredata_call io (uttchunkdata (randomizedchunks st ! k))) st)) = None \<longrightarrow>
          requirerandomizedchunk io k wbegin wend st
            = (Inr True, (runs (Suc n) (requiredata_call io (uttchunkdata (randomizedchunks st ! k))) st)
                            \<lparr>chunksinram := Suc (chunksinram st)\<rparr>))
      \<and> ((\<forall>m<5. fst (requiredata_call io (uttchunkdata (randomizedchunks st ! k))
                       (runs m (requiredata_call io (uttchunkdata (randomizedchunks st ! k))) st)) \<noteq> None) \<longrightarrow>
          (\<exists>e. fst (requiredata_call io (uttchunkdata (randomizedchunks st ! k))
                      (runs 4 (requiredata_call io (uttchunkdata (randomizedchunks st ! k))) st)) = Some e \<and>
               requirerandomizedchunk io k wbegin wend st
                 = (Inl e, runs 5 (requiredata_call io (uttchunkdata (randomizedchunks st ! k))) st))))
   \<and> (wbegin \<le> k \<and> k < wend \<and> k < length (randomizedchunks st) \<and>
        uttchunkdata (randomizedchunks st ! k) < length (allchunks st) \<and>
        \<not> isinram (allchunks st ! uttchunkdata (randomizedchunks st ! k)) \<longrightarrow>
      (case requirerandomizedchunk io k wbegin wend st of
         (Inr b, st') \<Rightarrow> b \<and> isinram (allchunks st' ! uttchunkdata (randomizedchunks st ! k))
                          \<and> ioclock st < ioclock st' \<and> ioclock st' \<le> ioclock st + 5
       | (Inl e, st') \<Rightarrow> \<not> isinram (allchunks st' ! uttchunkdata (randomizedchunks st ! k))
                          \<and> ioclock st' = ioclock st + 5))
   \<and> (k < length (randomizedchunks st) \<and>
        \<not> isinram (allchunks st ! uttchunkdata (randomizedchunks st ! k)) \<longrightarrow>
      releaserandomizedchunk P k st = Inr st)"
proof (intro conjI impI allI)
  assume "k < wbegin \<or> wend \<le> k"
  then show "requirerandomizedchunk io k wbegin wend st
        = (Inl (logic_error ''requirerandomizedchunk: requested utterance outside in-memory chunk range''), st)"
    by (auto simp: requirerandomizedchunk_def)
next
  assume "wbegin \<le> k \<and> k < wend \<and> k < length (randomizedchunks st) \<and>
        isinram (allchunks st ! uttchunkdata (randomizedchunks st ! k))"
  then show "requirerandomizedchunk io k wbegin wend st = (Inr False, st)"
    by (simp add: requirerandomizedchunk_def)
next
  let ?ci = "uttchunkdata (randomizedchunks st ! k)"
  let ?call = "requiredata_call io ?ci"
  fix n
  assume a: "wbegin \<le> k \<and> k < wend \<and> k < length (randomizedchunks st) \<and>
        \<not> isinram (allchunks st ! ?ci)"
    and n: "n < 5"
    and h: "(\<forall>m<n. fst (?call (runs m ?call st)) \<noteq> None) \<and> fst (?call (runs n ?call st)) = None"
  from h have h1: "\<forall>m<n. fst (?call (runs m ?call st)) \<noteq> None"
    and h2: "fst (?call (runs n ?call st)) = None" by blast+
  have att: "attempt 5 ?call st = (None, runs (Suc n) ?call st)"
    using h1 h2 n by (rule attempt_first_success)
  have cr: "chunksinram (runs (Suc n) ?call st) = chunksinram st"
    using runs_requiredata_call [of "Suc n" io ?ci st] by blast
  from a have "requirerandomizedchunk io k wbegin wend st
      = (case attempt 5 ?call st of
           (Some e, st') \<Rightarrow> (Inl e, st')
         | (None, st') \<Rightarrow> (Inr True, st'\<lparr>chunksinram := Suc (chunksinram st')\<rparr>))"
    by (simp add: requirerandomizedchunk_def Let_def)
  also have "\<dots> = (Inr True, (runs (Suc n) ?call st)\<lparr>chunksinram := Suc (chunksinram st)\<rparr>)"
    by (simp only: att prod.case option.case cr)
  finally show "requirerandomizedchunk io k wbegin wend st
            = (Inr True, (runs (Suc n) ?call st)\<lparr>chunksinram := Suc (chunksinram st)\<rparr>)" .
next
  let ?ci = "uttchunkdata (randomizedchunks st ! k)"
  let ?call = "requiredata_call io ?ci"
  assume a: "wbegin \<le> k \<and> k < wend \<and> k < length (randomizedchunks st) \<and>
        \<not> isinram (allchunks st ! ?ci)"
    and h: "\<forall>m<5. fst (?call (runs m ?call st)) \<noteq> None"
  have five: "(5::nat) = Suc 4" by simp
  from h have h': "\<forall>m<Suc 4. fst (?call (runs m ?call st)) \<noteq> None"
    by (simp only: five)
  have "attempt (Suc 4) ?call st = (fst (?call (runs 4 ?call st)), runs (Suc 4) ?call st)"
    using h' by (rule attempt_all_fail)
  then have att: "attempt 5 ?call st = (fst (?call (runs 4 ?call st)), runs 5 ?call st)"
    by (simp only: five)
  from h have "fst (?call (runs 4 ?call st)) \<noteq> None" by simp
  then obtain e where e: "fst (?call (runs 4 ?call st)) = Some e" by blast
  from a have "requirerandomizedchunk io k wbegin wend st
      = (case attempt 5 ?call st of
           (Some e, st') \<Rightarrow> (Inl e, st')
         | (None, st') \<Rightarrow> (Inr True, st'\<lparr>chunksinram := Suc (chunksinram st')\<rparr>))"
    by (simp add: requirerandomizedchunk_def Let_def)
  also have "\<dots> = (Inl e, runs 5 ?call st)"
    by (simp only: att e prod.case option.case)
  finally have "requirerandomizedchunk io k wbegin wend st = (Inl e, runs 5 ?call st)" .
  with e show "\<exists>e. fst (?call (runs 4 ?call st)) = Some e \<and>
               requirerandomizedchunk io k wbegin wend st = (Inl e, runs 5 ?call st)"
    by blast
next
  let ?ci = "uttchunkdata (randomizedchunks st ! k)"
  assume a: "wbegin \<le> k \<and> k < wend \<and> k < length (randomizedchunks st) \<and>
        ?ci < length (allchunks st) \<and> \<not> isinram (allchunks st ! ?ci)"
  obtain r st1 where att5: "attempt 5 (requiredata_call io ?ci) st = (r, st1)"
    by (cases "attempt 5 (requiredata_call io ?ci) st") auto
  have five: "(5::nat) = Suc 4" by simp
  from att5 have att: "attempt (Suc 4) (requiredata_call io ?ci) st = (r, st1)"
    by (simp only: five)
  from attempt_requiredata_call [OF att] a
  have p: "(r = None \<longrightarrow> isinram (allchunks st1 ! ?ci) \<and> ioclock st < ioclock st1
                        \<and> ioclock st1 \<le> ioclock st + 5)
       \<and> (r \<noteq> None \<longrightarrow> \<not> isinram (allchunks st1 ! ?ci) \<and> ioclock st1 = ioclock st + 5)"
    by simp
  show "case requirerandomizedchunk io k wbegin wend st of
         (Inr b, st') \<Rightarrow> b \<and> isinram (allchunks st' ! ?ci)
                          \<and> ioclock st < ioclock st' \<and> ioclock st' \<le> ioclock st + 5
       | (Inl e, st') \<Rightarrow> \<not> isinram (allchunks st' ! ?ci) \<and> ioclock st' = ioclock st + 5"
  proof (cases r)
    case None
    with a att5 p show ?thesis
      by (simp add: requirerandomizedchunk_def Let_def)
  next
    case (Some e)
    with a att5 p show ?thesis
      by (simp add: requirerandomizedchunk_def Let_def)
  qed
next
  assume "k < length (randomizedchunks st) \<and>
        \<not> isinram (allchunks st ! uttchunkdata (randomizedchunks st ! k))"
  then show "releaserandomizedchunk P k st = Inr st"
    by (simp add: releaserandomizedchunk_def Let_def)
qed


theorem requirerandomizedchunk_release_cases_witness:
  "requirerandomizedchunk world_ok 1 0 1 example_randomized
     = (Inl (logic_error ''requirerandomizedchunk: requested utterance outside in-memory chunk range''),
        example_randomized)
   \<and> requirerandomizedchunk world_ok 0 0 1 example_loaded = (Inr False, example_loaded)
   \<and> requirerandomizedchunk world_ok 0 0 1 example_randomized = (Inr True, example_loaded)
   \<and> requirerandomizedchunk world_flaky 0 0 1 example_randomized
        = (Inr True, example_loaded\<lparr>ioclock := 3\<rparr>)
   \<and> requirerandomizedchunk world_readfails 0 0 1 example_randomized
        = (Inl (runtime_error ''htkfeatreader: read failed''),
           example_randomized\<lparr>featdim := 39, ioclock := 5\<rparr>)
   \<and> isinram (allchunks example_loaded ! 0)
   \<and> \<not> isinram (allchunks (example_randomized\<lparr>featdim := 39, ioclock := 5\<rparr>) ! 0)
   \<and> releaserandomizedchunk example_platform 0 example_randomized = Inr example_randomized"
proof -
  let ?S = "example_randomized\<lparr>featdim := 0, ioclock := 0\<rparr>"
  have S: "?S = example_randomized"
    by (simp add: example_randomized_def example_source_def)
  have ci: "uttchunkdata (randomizedchunks ?S ! 0) = 0" "chunksinram ?S = 0"
    by (simp_all add: example_randomized_def example_source_def example_chunks_def)
  have nr: "\<not> isinram (allchunks ?S ! uttchunkdata (randomizedchunks ?S ! 0))"
    by (simp add: example_randomized_def example_source_def example_chunks_def example_chunk_def
                  isinram_def matrix_empty_def matrix_resize_def)
  have ir: "isinram (allchunks example_loaded ! uttchunkdata (randomizedchunks example_loaded ! 0))"
    by (simp add: example_loaded_def example_randomized_def example_source_def example_chunks_def
                  example_chunk_def isinram_def matrix_empty_def matrix_resize_def)
  have l: "length (randomizedchunks ?S) = 1"
       "length (randomizedchunks example_loaded) = 1"
       "length (allchunks ?S) = 1"
    by (simp_all add: example_loaded_def example_randomized_def example_source_def example_chunks_def)
  have inw: "(0::nat) \<le> 0 \<and> (0::nat) < 1 \<and> 0 < length (randomizedchunks ?S) \<and>
        \<not> isinram (allchunks ?S ! uttchunkdata (randomizedchunks ?S ! 0))"
    using nr l by simp
  note t1 = requirerandomizedchunk_release_cases [of 1 0 1 world_ok example_randomized example_platform]
  note t2 = requirerandomizedchunk_release_cases [of 0 0 1 world_ok example_loaded example_platform]
  note t3 = requirerandomizedchunk_release_cases [of 0 0 1 world_ok ?S example_platform,
      THEN conjunct2, THEN conjunct2, THEN conjunct1, THEN mp, OF inw, THEN conjunct1, rule_format, of 0]
  note t4 = requirerandomizedchunk_release_cases [of 0 0 1 world_flaky ?S example_platform,
      THEN conjunct2, THEN conjunct2, THEN conjunct1, THEN mp, OF inw, THEN conjunct1, rule_format, of 2]
  note t5 = requirerandomizedchunk_release_cases [of 0 0 1 world_readfails ?S example_platform,
      THEN conjunct2, THEN conjunct2, THEN conjunct1, THEN mp, OF inw, THEN conjunct2, rule_format]
  note t6 = requirerandomizedchunk_release_cases [of 0 0 1 world_ok ?S example_platform]
  from t1 have c1: "requirerandomizedchunk world_ok 1 0 1 example_randomized
     = (Inl (logic_error ''requirerandomizedchunk: requested utterance outside in-memory chunk range''),
        example_randomized)"
    by simp
  from t2 ir l have c2: "requirerandomizedchunk world_ok 0 0 1 example_loaded = (Inr False, example_loaded)"
    by simp
  have a3: "requirerandomizedchunk world_ok 0 0 1 ?S
      = (Inr True, (runs (Suc 0) (requiredata_call world_ok 0) ?S)\<lparr>chunksinram := Suc 0\<rparr>)"
    using t3 example_outcomes(5) unfolding ci by simp
  have c3: "requirerandomizedchunk world_ok 0 0 1 example_randomized = (Inr True, example_loaded)"
    using a3 [unfolded example_runs, unfolded S] by (simp add: example_loaded_def)
  have a4: "requirerandomizedchunk world_flaky 0 0 1 ?S
      = (Inr True, (runs 3 (requiredata_call world_flaky 0) ?S)\<lparr>chunksinram := Suc 0\<rparr>)"
    using t4 example_outcomes(1,2) unfolding ci by (simp add: eval_nat_numeral)
  have c4: "requirerandomizedchunk world_flaky 0 0 1 example_randomized
        = (Inr True, example_loaded\<lparr>ioclock := 3\<rparr>)"
    using a4 [unfolded example_runs, unfolded S] by (simp add: example_loaded_def)
  have a5: "\<exists>e. fst (requiredata_call world_readfails 0 (runs 4 (requiredata_call world_readfails 0) ?S)) = Some e \<and>
      requirerandomizedchunk world_readfails 0 0 1 ?S
        = (Inl e, runs 5 (requiredata_call world_readfails 0) ?S)"
    using t5 example_outcomes(3) unfolding ci by simp
  have c5: "requirerandomizedchunk world_readfails 0 0 1 example_randomized
        = (Inl (runtime_error ''htkfeatreader: read failed''),
           example_randomized\<lparr>featdim := 39, ioclock := 5\<rparr>)"
    using a5 [unfolded example_runs example_outcomes(4), unfolded S] by simp
  have c6: "isinram (allchunks example_loaded ! 0)"
    using ir by (simp add: example_loaded_def example_randomized_def example_source_def example_chunks_def)
  have c7: "\<not> isinram (allchunks (example_randomized\<lparr>featdim := 39, ioclock := 5\<rparr>) ! 0)"
    using nr ci by simp
  from t6 nr l have c8: "releaserandomizedchunk example_platform 0 example_randomized = Inr example_randomized"
    unfolding S by simp
  from c1 c2 c3 c4 c5 c6 c7 c8 show ?thesis by simp
qed

end
